theory Spec2Isabelle
  imports Main "HOL-Library.Word"
begin

unbundle bit_operations_syntax

chapter \<open>CRAX++: memory introspection, dynamic ROP, Ret2syscall and the exploit generator\<close>

type_synonym u8 = "8 word"
type_synonym u32 = "32 word"
type_synonym u64 = "64 word"

section \<open>Shared data\<close>

text \<open>
  The C++ code reports problems on the \<open>log<WARN>()\<close> stream. The messages carry
  hexadecimal addresses; the model keeps one constructor per message and the address as a
  value, so that a test on "was a warning written" does not depend on number formatting.
\<close>

datatype warning =
    CannotReadConcrete u64      \<comment> \<open>"Cannot read concrete data from memory: " << hexval(addr)\<close>
  | NoMoreConstraints           \<comment> \<open>"No more dynamic ROP constraints to apply."\<close>
  | AddingConstraints           \<comment> \<open>"Adding dynamic ROP constraints..."\<close>
  | DetectedSymbolicRip u64     \<comment> \<open>"Detected symbolic RIP: " << hexval(concreteRip) ...\<close>
  | RegInfoDump                 \<comment> \<open>what \<open>reg().showRegInfo()\<close> prints\<close>
  | MapInfoDump                 \<comment> \<open>what \<open>mem().showMapInfo()\<close> prints\<close>

text \<open>
  Everything that leaves a function other than by \<open>return\<close>: the exception that
  DynamicRop throws, a failed \<open>assert\<close>, \<open>std::map::at\<close> on a missing key, the
  dereference of a null pointer and an index past the end of a vector.
\<close>

datatype exn =
    CpuExitException
  | AssertionFailed
  | OutOfRange
  | NullDereference

section \<open>MemoryManager.cpp\<close>

subsection \<open>The engine's memory interface\<close>

text \<open>
  \<open>m_ctx.getCurrentState()->mem()\<close> belongs to the symbolic execution engine. The four
  calls MemoryManager makes are kept as independent functions of the address: the source
  itself notes that a mapped address may still be unreadable. \<open>mem_read1 a = None\<close> is
  \<open>read(a, &b, 1)\<close> returning false. The map plugin's \<open>iterateRegions\<close> is the list of
  regions in the order the callback receives them and \<open>reg_rsp\<close> the concrete stack
  pointer. \<open>TARGET_PAGE_SIZE\<close>, \<open>MM_READ\<close> and \<open>MM_WRITE\<close> are constants of the engine's
  headers, which are not among the sources: they are parameters here.
\<close>

record MemoryRegion =
  start :: u64
  end_addr :: u64
  prot :: u8

record engine =
  mem_symbolic :: "u64 \<Rightarrow> u64 \<Rightarrow> bool"
  mem_read1 :: "u64 \<Rightarrow> u8 option"
  mem_readN :: "u64 \<Rightarrow> nat \<Rightarrow> u8 list option"
  mem_hostAddress :: "u64 \<Rightarrow> bool"
  iterateRegions :: "MemoryRegion list"
  reg_rsp :: u64
  TARGET_PAGE_SIZE :: u64
  MM_READ :: u8
  MM_WRITE :: u8

definition isSymbolic :: "engine \<Rightarrow> u64 \<Rightarrow> u64 \<Rightarrow> bool" where
  "isSymbolic e virtAddr sz = mem_symbolic e virtAddr sz"

definition isMapped :: "engine \<Rightarrow> u64 \<Rightarrow> bool" where
  "isMapped e virtAddr = mem_hostAddress e virtAddr"

subsection \<open>readConcrete\<close>

text \<open>
  The byte-by-byte loop of \<open>readConcrete(virtAddr, size, false)\<close>. \<open>ret\<close> is the vector
  \<open>std::vector<uint8_t> ret(size)\<close>, all zero at the start (the variable \<open>size\<close> is
  written \<open>sz\<close>, and the loop counter is a natural number below it); a symbolic byte is
  skipped with \<open>continue\<close>, a failed read writes the warning, clears \<open>ret\<close> and leaves
  the loop. The function returns the vector and the warnings written.
\<close>

function readConcrete_loop ::
  "engine \<Rightarrow> u64 \<Rightarrow> nat \<Rightarrow> nat \<Rightarrow> u8 list \<Rightarrow> u8 list \<times> warning list" where
  "readConcrete_loop e virtAddr sz i ret =
     (if i < sz then
        (if isSymbolic e (virtAddr + of_nat i) 1
         then readConcrete_loop e virtAddr sz (Suc i) ret
         else (case mem_read1 e (virtAddr + of_nat i) of
                 None \<Rightarrow> ([], [CannotReadConcrete (virtAddr + of_nat i)])
               | Some b \<Rightarrow> readConcrete_loop e virtAddr sz (Suc i) (ret[i := b])))
      else (ret, []))"
  by pat_completeness auto
termination
  by (relation "measure (\<lambda>(e, virtAddr, sz, i, ret). sz - i)") auto

declare readConcrete_loop.simps [simp del]

text \<open>
  With \<open>concretize\<close> the whole range is read in one call of the engine, which fills the
  \<open>size\<close> bytes of \<open>ret\<close>.
\<close>

definition readConcrete :: "engine \<Rightarrow> u64 \<Rightarrow> u64 \<Rightarrow> bool \<Rightarrow> u8 list \<times> warning list" where
  "readConcrete e virtAddr sz concretize =
     (if concretize then
        (case mem_readN e virtAddr (unat sz) of
           None \<Rightarrow> ([], [CannotReadConcrete virtAddr])
         | Some bs \<Rightarrow> (take (unat sz) (bs @ replicate (unat sz) 0), []))
      else readConcrete_loop e virtAddr (unat sz) 0 (replicate (unat sz) 0))"

text \<open>A genuine memory fault in the range: a byte that is not symbolic and cannot be read.\<close>

definition faultAt :: "engine \<Rightarrow> u64 \<Rightarrow> nat \<Rightarrow> bool" where
  "faultAt e virtAddr i =
     (\<not> isSymbolic e (virtAddr + of_nat i) 1 \<and> mem_read1 e (virtAddr + of_nat i) = None)"


subsection \<open>search\<close>

text \<open>
  \<open>while (!isMapped(region.start) && region.start < region.end) ++region.start;\<close>
  The loop works on the copy \<open>region\<close> of the set's element and returns its new start.
\<close>

function skipUnmapped :: "engine \<Rightarrow> u64 \<Rightarrow> u64 \<Rightarrow> u64" where
  "skipUnmapped e region_start region_end =
     (if \<not> isMapped e region_start \<and> region_start < region_end
      then skipUnmapped e (region_start + 1) region_end
      else region_start)"
  by pat_completeness auto
termination
proof (relation "measure (\<lambda>(e, region_start, region_end). unat region_end - unat region_start)")
  show "wf (measure (\<lambda>(e, region_start, region_end). unat region_end - unat region_start))"
    by simp
next
  fix e :: engine and region_start region_end :: u64
  assume "\<not> isMapped e region_start \<and> region_start < region_end"
  then have lt: "region_start < region_end" by simp
  then have "region_start + 1 \<noteq> 0"
    using eq_neg_iff_add_eq_0 by force
  then have "1 + region_start \<noteq> 0"
    by (simp add: add.commute)
  then have "unat (1 + region_start) = Suc (unat region_start)"
    by (rule unatSuc)
  then have "unat (region_start + 1) = Suc (unat region_start)"
    by (simp add: add.commute)
  with lt show "((e, region_start + 1, region_end), (e, region_start, region_end))
          \<in> measure (\<lambda>(e, region_start, region_end). unat region_end - unat region_start)"
    by (simp add: word_less_nat_alt)
qed

declare skipUnmapped.simps [simp del]

text \<open>
  \<open>kmp\<close> comes from \<open>Utils/Algorithm.h\<close>, which is not among the sources. \<open>search\<close>
  takes it as a parameter: a function from haystack and needle to the offsets found.
\<close>

type_synonym kmp_fun = "u8 list \<Rightarrow> u8 list \<Rightarrow> u64 list"

text \<open>The haystack that \<open>search\<close> reads for a region whose start has been adjusted.\<close>

definition regionHaystack :: "engine \<Rightarrow> u64 \<Rightarrow> u64 \<Rightarrow> u8 list" where
  "regionHaystack e region_start region_end =
     fst (readConcrete e region_start (region_end - region_start) False)"

text \<open>One iteration of the loop over the regions: the addresses this region adds to \<open>ret\<close>.\<close>

definition searchRegion :: "engine \<Rightarrow> kmp_fun \<Rightarrow> u8 list \<Rightarrow> MemoryRegion \<Rightarrow> u64 list" where
  "searchRegion e kmp needle region =
     (let region_start = skipUnmapped e (start region) (end_addr region) in
      if region_start \<ge> end_addr region then []
      else
        (let haystack = regionHaystack e region_start (end_addr region);
             localResult = kmp haystack needle
         in map (\<lambda>r. r + region_start) localResult))"

subsection \<open>getMapInfo\<close>

text \<open>
  Modelled from the spec: \<open>MemoryRegionCmp\<close>, the ordering of
  \<open>std::set<MemoryRegion, MemoryRegionCmp>\<close>, is declared in \<open>MemoryManager.h\<close>, which is
  not among the sources. The spec describes the region set as an "ordered set keyed by
  start address": \<open>insert\<close> keeps the elements sorted by \<open>start\<close> and leaves the set as it
  is when an element with the same start is already there.
\<close>

fun set_insert :: "MemoryRegion \<Rightarrow> MemoryRegion list \<Rightarrow> MemoryRegion list" where
  "set_insert r [] = [r]"
| "set_insert r (x # xs) =
     (if start r < start x then r # x # xs
      else if start x < start r then x # set_insert r xs
      else x # xs)"

text \<open>
  The two probing loops. Each runs until it meets an unmapped page; when every page it
  visits is mapped it runs forever, which is the value \<open>None\<close>.
\<close>

partial_function (option) probeDown :: "engine \<Rightarrow> u64 \<Rightarrow> u64 option" where
  "probeDown e stackBegin =
     (if isMapped e stackBegin then probeDown e (stackBegin - TARGET_PAGE_SIZE e)
      else Some stackBegin)"

partial_function (option) probeUp :: "engine \<Rightarrow> u64 \<Rightarrow> u64 option" where
  "probeUp e stackEnd =
     (if isMapped e stackEnd then probeUp e (stackEnd + TARGET_PAGE_SIZE e)
      else Some stackEnd)"

text \<open>The region that \<open>getMapInfo\<close> builds for the stack.\<close>

definition stackRegion :: "engine \<Rightarrow> MemoryRegion option" where
  "stackRegion e =
     (let rsp = reg_rsp e;
          page_mask = NOT (TARGET_PAGE_SIZE e - 1)
      in case probeDown e (rsp AND page_mask) of
           None \<Rightarrow> None
         | Some b \<Rightarrow>
             (let stackBegin = b + TARGET_PAGE_SIZE e
              in case probeUp e (rsp AND page_mask) of
                   None \<Rightarrow> None
                 | Some t \<Rightarrow>
                     (let stackEnd = t - TARGET_PAGE_SIZE e
                      in Some \<lparr> start = stackBegin, end_addr = stackEnd,
                                 prot = MM_READ e OR MM_WRITE e \<rparr>)))"

definition getMapInfo :: "engine \<Rightarrow> MemoryRegion list option" where
  "getMapInfo e =
     (let ret = foldl (\<lambda>ret r. set_insert r ret) [] (iterateRegions e)
      in case stackRegion e of
           None \<Rightarrow> None
         | Some stack \<Rightarrow> Some (set_insert stack ret))"

text \<open>
  \<open>search\<close> walks the regions of \<open>getMapInfo\<close> in the set's order and appends what each
  contributes. The warnings of \<open>readConcrete\<close> go to the log and are not part of the result.
\<close>

definition search :: "engine \<Rightarrow> kmp_fun \<Rightarrow> u8 list \<Rightarrow> u64 list option" where
  "search e kmp needle =
     (case getMapInfo e of
        None \<Rightarrow> None
      | Some regions \<Rightarrow> Some (concat (map (searchRegion e kmp needle) regions)))"

subsection \<open>Vocabulary for the properties of search and getMapInfo\<close>

text \<open>
  Modelled from the spec: \<open>kmp\<close> (\<open>Utils/Algorithm.h\<close>) is not among the sources. The spec
  gives it "Knuth-Morris-Pratt semantics": \<open>search\<close> "returns every virtual address at
  which needle occurs". \<open>occursAt needle haystack k\<close> says that the needle occurs at offset
  \<open>k\<close>, \<open>kmp_spec\<close> that a function returns exactly the offsets of the occurrences, and
  \<open>kmp_naive\<close> is the plain search that does so.
\<close>

definition occursAt :: "u8 list \<Rightarrow> u8 list \<Rightarrow> nat \<Rightarrow> bool" where
  "occursAt needle haystack k =
     (k + length needle \<le> length haystack \<and> take (length needle) (drop k haystack) = needle)"

definition kmp_spec :: "kmp_fun \<Rightarrow> bool" where
  "kmp_spec kmp =
     (\<forall>haystack needle. set (kmp haystack needle) = of_nat ` {k. occursAt needle haystack k})"

definition kmp_naive :: kmp_fun where
  "kmp_naive haystack needle =
     map of_nat (filter (occursAt needle haystack) [0..<Suc (length haystack)])"

text \<open>
  A region whose bytes are all accessible and concrete, with content \<open>bs\<close>: every address
  of \<open>[start, end)\<close> is mapped, not symbolic and reads as the byte of \<open>bs\<close> at its offset.
\<close>

definition regionHolds :: "engine \<Rightarrow> MemoryRegion \<Rightarrow> u8 list \<Rightarrow> bool" where
  "regionHolds e region bs =
     (start region < end_addr region \<and>
      length bs = unat (end_addr region - start region) \<and>
      (\<forall>i < length bs.
         isMapped e (start region + of_nat i) \<and>
         \<not> isSymbolic e (start region + of_nat i) 1 \<and>
         mem_read1 e (start region + of_nat i) = Some (bs ! i)))"

text \<open>Two half-open ranges overlap when each starts before the other ends.\<close>

definition overlap :: "MemoryRegion \<Rightarrow> MemoryRegion \<Rightarrow> bool" where
  "overlap r1 r2 = (start r1 < end_addr r2 \<and> start r2 < end_addr r1)"

definition pageAligned :: "engine \<Rightarrow> u64 \<Rightarrow> bool" where
  "pageAligned e a = (a AND (TARGET_PAGE_SIZE e - 1) = 0)"


section \<open>Expressions and constraints\<close>

text \<open>
  The registers that the sources name (the enumeration itself is declared in a header
  that is not among them).
\<close>

datatype X64 = RAX | RDI | RSI | RDX | R10 | R8 | R9 | RSP | RIP

text \<open>
  Expressions: a constant with its width (\<open>ConstantExpr::create(v, Expr::Int64)\<close> is
  \<open>ConstantExpr v 64\<close>), a base-plus-offset reference into an ELF (its file name, and the
  symbol or variable name, empty for the BSS), a byte vector, and any other expression of
  the engine, which \<open>dyn_cast<ConstantExpr>\<close> does not recognise.
\<close>

datatype BaseType = VAR | SYM | GOT | BSS

datatype expr =
    ConstantExpr u64 nat
  | BaseOffsetExpr BaseType string string
  | ByteVectorExpr "u8 list"
  | SymbolicExpr nat

type_synonym RopSubchain = "expr list"

datatype Constraint =
    RegisterConstraint X64 expr
  | MemoryConstraint u64 expr

section \<open>DynamicRop.cpp\<close>

type_synonym state_id = nat

text \<open>
  What the module does to the engine is kept as a trace of calls, each with the execution
  state it acts on: \<open>RopChainBuilder::addRegisterConstraint(state, ...)\<close> and
  \<open>terminateState(state, ...)\<close> act on the state passed to the handler, \<open>reg()\<close> and
  \<open>mem()\<close> on the current state.
\<close>

datatype event =
    AddRegisterConstraint state_id X64 expr
  | RegWriteSymbolic state_id X64 expr
  | AddMemoryConstraint state_id u64 expr
  | MemWriteSymbolic state_id u64 expr
  | SetRipSymbolic state_id expr
  | TerminateState state_id string

record ModuleState =
  constraintsQueue :: "Constraint list list"

text \<open>
  The plugin with its DynamicRop module: the current state, the module's per-state data
  (\<open>getPluginModuleState\<close>; \<open>None\<close> is the null pointer the \<open>assert\<close> guards against),
  the group under construction, and the trace and the log written so far.
\<close>

record crax =
  currentState :: state_id
  moduleStates :: "state_id \<rightharpoonup> ModuleState"
  m_currentConstraintGroup :: "Constraint list"
  events :: "event list"
  warnings :: "warning list"

text \<open>
  What the sources use and do not define: whether the solver accepts a constraint (it may
  depend on everything done before), the lookup \<open>mem(&state).getMapInfo().find(addr)\<close>
  giving the module name of the region that holds the address, the label of the primary
  ELF, \<open>ELF::rebaseAddress\<close> and the ELF base the user specified (0 when none).
\<close>

record rop_env =
  addRegisterConstraint :: "event list \<Rightarrow> state_id \<Rightarrow> X64 \<Rightarrow> expr \<Rightarrow> bool"
  addMemoryConstraint :: "event list \<Rightarrow> state_id \<Rightarrow> u64 \<Rightarrow> expr \<Rightarrow> bool"
  mapInfo_find :: "state_id \<Rightarrow> u64 \<Rightarrow> string option"
  s_elfLabel :: string
  rebaseAddress :: "u64 \<Rightarrow> u64 \<Rightarrow> u64"
  getUserSpecifiedElfBase :: u64

type_synonym 'a thrown = "(exn \<times> crax) + 'a"

definition addConstraint :: "Constraint \<Rightarrow> crax \<Rightarrow> crax" where
  "addConstraint c x = x\<lparr> m_currentConstraintGroup := m_currentConstraintGroup x @ [c] \<rparr>"

text \<open>
  \<open>constraintsQueue.push(std::move(m_currentConstraintGroup))\<close>: the group is moved into
  the queue of the current state, which leaves the member vector empty.
\<close>

definition commitConstraints :: "crax \<Rightarrow> crax thrown" where
  "commitConstraints x =
     (case moduleStates x (currentState x) of
        None \<Rightarrow> Inl (AssertionFailed, x)
      | Some modState \<Rightarrow>
          Inr (x\<lparr> moduleStates := (moduleStates x)(currentState x \<mapsto>
                       modState\<lparr> constraintsQueue :=
                         constraintsQueue modState @ [m_currentConstraintGroup x] \<rparr>),
                   m_currentConstraintGroup := [] \<rparr>))"

definition terminateState :: "state_id \<Rightarrow> string \<Rightarrow> crax \<Rightarrow> crax" where
  "terminateState sid msg x = x\<lparr> events := events x @ [TerminateState sid msg] \<rparr>"

text \<open>
  The body of the loop over the group, for one constraint. For a register constraint the
  source reads \<open>ce->getZExtValue()\<close> from the result of \<open>dyn_cast<ConstantExpr>\<close> without a
  test: an expression that is not a constant is a null dereference. The call of
  \<open>terminateState\<close> is recorded and the loop goes on, as the source has no \<open>break\<close>.
\<close>

fun applyConstraint :: "rop_env \<Rightarrow> state_id \<Rightarrow> Constraint \<Rightarrow> crax \<Rightarrow> crax thrown" where
  "applyConstraint env sid (RegisterConstraint r (ConstantExpr v w)) x =
     (let e2 = ConstantExpr v w;
          isElfAddress = (mapInfo_find env sid v = Some (s_elfLabel env));
          e1 = (if getUserSpecifiedElfBase env \<noteq> 0 \<and> isElfAddress
                then ConstantExpr (rebaseAddress env v (getUserSpecifiedElfBase env)) 64
                else ConstantExpr v w);
          ok = addRegisterConstraint env (events x) sid r e1;
          x1 = x\<lparr> events := events x @
                  [AddRegisterConstraint sid r e1, RegWriteSymbolic (currentState x) r e2] \<rparr>
      in Inr (if \<not> ok then terminateState sid ''Dynamic ROP failed'' x1 else x1))"
| "applyConstraint env sid (RegisterConstraint r e) x = Inl (NullDereference, x)"
| "applyConstraint env sid (MemoryConstraint a e) x =
     (let ok = addMemoryConstraint env (events x) sid a e;
          x1 = x\<lparr> events := events x @
                  [AddMemoryConstraint sid a e, MemWriteSymbolic (currentState x) a e] \<rparr>
      in Inr (if \<not> ok then terminateState sid ''Dynamic ROP failed'' x1 else x1))"

text \<open>\<open>hasRipConstraint |= rc->reg == Register::X64::RIP\<close>, for register constraints only.\<close>

fun isRipConstraint :: "Constraint \<Rightarrow> bool" where
  "isRipConstraint (RegisterConstraint r e) = (r = RIP)"
| "isRipConstraint (MemoryConstraint a e) = False"

fun applyConstraints ::
  "rop_env \<Rightarrow> state_id \<Rightarrow> Constraint list \<Rightarrow> bool \<Rightarrow> crax \<Rightarrow> (bool \<times> crax) thrown" where
  "applyConstraints env sid [] hasRipConstraint x = Inr (hasRipConstraint, x)"
| "applyConstraints env sid (c # cs) hasRipConstraint x =
     (case applyConstraint env sid c x of
        Inl t \<Rightarrow> Inl t
      | Inr x' \<Rightarrow> applyConstraints env sid cs (hasRipConstraint \<or> isRipConstraint c) x')"

definition applyNextConstraintGroup :: "rop_env \<Rightarrow> state_id \<Rightarrow> crax \<Rightarrow> crax thrown" where
  "applyNextConstraintGroup env sid x =
     (case moduleStates x sid of
        None \<Rightarrow> Inl (AssertionFailed, x)
      | Some modState \<Rightarrow>
          (case constraintsQueue modState of
             [] \<Rightarrow> Inr (x\<lparr> warnings := warnings x @ [NoMoreConstraints] \<rparr>)
           | front # rest \<Rightarrow>
               (case applyConstraints env sid front False
                       (x\<lparr> warnings := warnings x @ [AddingConstraints] \<rparr>) of
                  Inl t \<Rightarrow> Inl t
                | Inr (hasRipConstraint, x1) \<Rightarrow>
                    (let x2 = x1\<lparr> moduleStates := (moduleStates x1)(sid \<mapsto>
                                 modState\<lparr> constraintsQueue := rest \<rparr>) \<rparr>
                     in if hasRipConstraint then Inl (CpuExitException, x2) else Inr x2))))"

definition beforeExploitGeneration :: "rop_env \<Rightarrow> state_id \<Rightarrow> crax \<Rightarrow> crax thrown" where
  "beforeExploitGeneration env sid x = applyNextConstraintGroup env sid x"

subsection \<open>Vocabulary for the properties of the queue\<close>

text \<open>"commitConstraints is called for group G": its constraints are added, then committed.\<close>

definition commitGroup :: "Constraint list \<Rightarrow> crax \<Rightarrow> crax thrown" where
  "commitGroup G x = commitConstraints (foldl (\<lambda>x c. addConstraint c x) x G)"

text \<open>
  The state a call leaves behind for the next trigger: the one it returns, or the one at
  which it throws \<open>CpuExitException\<close> (the engine then runs the state on). After a failed
  assertion or a null dereference there is none.
\<close>

fun stateAfter :: "crax thrown \<Rightarrow> crax option" where
  "stateAfter (Inr x) = Some x"
| "stateAfter (Inl (CpuExitException, x)) = Some x"
| "stateAfter (Inl (t, x)) = None"

text \<open>
  The constraints read back from a trace: each one is injected with \<open>Add...Constraint\<close>
  (a register constraint possibly with a rebased value) and then written symbolically with
  its own expression. \<open>injected\<close> lists the targets of the injections, \<open>applied\<close> the
  constraints of the symbolic writes.
\<close>

datatype target = RegTarget X64 | MemTarget u64

fun constraintTarget :: "Constraint \<Rightarrow> target" where
  "constraintTarget (RegisterConstraint r e) = RegTarget r"
| "constraintTarget (MemoryConstraint a e) = MemTarget a"

fun injected :: "event list \<Rightarrow> target list" where
  "injected [] = []"
| "injected (AddRegisterConstraint s r e # evs) = RegTarget r # injected evs"
| "injected (AddMemoryConstraint s a e # evs) = MemTarget a # injected evs"
| "injected (ev # evs) = injected evs"

fun applied :: "event list \<Rightarrow> Constraint list" where
  "applied [] = []"
| "applied (RegWriteSymbolic s r e # evs) = RegisterConstraint r e # applied evs"
| "applied (MemWriteSymbolic s a e # evs) = MemoryConstraint a e # applied evs"
| "applied (ev # evs) = applied evs"

text \<open>A group that the handler can process: its register constraints hold constants.\<close>

fun constantRegister :: "Constraint \<Rightarrow> bool" where
  "constantRegister (RegisterConstraint r (ConstantExpr v w)) = True"
| "constantRegister (RegisterConstraint r e) = False"
| "constantRegister (MemoryConstraint a e) = True"

section \<open>CRAX.cpp: the handler of a symbolic program counter\<close>

datatype symbolicAddressReason = PC | OtherReason

type_synonym hook = "crax \<Rightarrow> crax thrown"

text \<open>
  \<open>exploitGenerationHooks.emit()\<close> runs the connected hooks in order; an exception of a
  hook leaves the emission.
\<close>

fun emit :: "hook list \<Rightarrow> crax \<Rightarrow> crax thrown" where
  "emit [] x = Inr x"
| "emit (h # hs) x = (case h x of Inl t \<Rightarrow> Inl t | Inr x' \<Rightarrow> emit hs x')"

text \<open>The handler up to the point where the hooks are run.\<close>

definition beforeHooks :: "crax \<Rightarrow> state_id \<Rightarrow> expr \<Rightarrow> u64 \<Rightarrow> crax" where
  "beforeHooks x exploitableState symbolicRip concreteRip =
     x\<lparr> currentState := exploitableState,
         warnings := warnings x @ [DetectedSymbolicRip concreteRip, RegInfoDump, MapInfoDump],
         events := events x @ [SetRipSymbolic exploitableState symbolicRip] \<rparr>"

definition onSymbolicRip ::
  "hook list \<Rightarrow> crax \<Rightarrow> state_id \<Rightarrow> expr \<Rightarrow> u64 \<Rightarrow> symbolicAddressReason \<Rightarrow> crax thrown" where
  "onSymbolicRip exploitGenerationHooks x exploitableState symbolicRip concreteRip reason =
     (if reason \<noteq> PC then Inr x
      else
        (case emit exploitGenerationHooks
                (beforeHooks x exploitableState symbolicRip concreteRip) of
           Inl t \<Rightarrow> Inl t
         | Inr x' \<Rightarrow> Inr (terminateState exploitableState ''End of exploit generation'' x')))"

section \<open>Ret2syscall.cpp\<close>

text \<open>
  What Ret2syscall reads of an ELF: its file name, the \<open>checksec\<close> flags, the symbol and
  function tables (\<open>std::map\<close>s by name) and the bytes of the file on disk. \<open>Function\<close> and
  \<open>Instruction\<close> carry the fields the source reads.
\<close>

record Function =
  fn_address :: u64
  fn_size :: u64

record Instruction =
  insn_address :: u64
  mnemonic :: string
  opStr :: string

record ELF =
  elf_filename :: string
  hasCanary :: bool
  hasPIE :: bool
  hasFullRELRO :: bool
  elf_symbols :: "string \<rightharpoonup> u64"
  elf_functions :: "string \<rightharpoonup> Function"
  fileBytes :: "u8 list"

text \<open>
  What the technique calls and the sources do not define: \<open>Exploit::resolveGadget\<close> and
  \<open>Exploit::toVarName\<close>, the check of the base class, the Ret2csu technique
  (\<open>g_crax->getTechnique<Ret2csu>()\<close>, \<open>None\<close> when it is not there) with its
  \<open>getRopSubchains(gadget, arg1, arg2, arg3)\<close>, and the disassembler. The gadget passed on
  is the member \<open>m_syscallGadget\<close>, a reference that may be null.
\<close>

type_synonym ret2csu_fun = "expr option \<Rightarrow> expr \<Rightarrow> expr \<Rightarrow> expr \<Rightarrow> RopSubchain list"

record technique_env =
  resolveGadget :: "ELF \<Rightarrow> string \<Rightarrow> bool"
  toVarName :: "string \<Rightarrow> string"
  Technique_checkRequirements :: "(string \<times> string) list \<Rightarrow> bool"
  getTechnique_Ret2csu :: "ret2csu_fun option"
  disasm :: "u8 list \<Rightarrow> u64 \<Rightarrow> Instruction list"

record Ret2syscall =
  m_requiredGadgets :: "(string \<times> string) list"
  m_syscallGadget :: "expr option"

text \<open>The constructor.\<close>

definition Ret2syscall_new :: "technique_env \<Rightarrow> ELF \<Rightarrow> Ret2syscall" where
  "Ret2syscall_new env elf =
     (let gadgetAsm = ''syscall ; ret'' in
      if resolveGadget env elf gadgetAsm then
        \<lparr> m_requiredGadgets = [(elf_filename elf, gadgetAsm)],
          m_syscallGadget = Some (BaseOffsetExpr VAR (elf_filename elf) (toVarName env gadgetAsm)) \<rparr>
      else if \<not> hasFullRELRO elf \<and> elf_symbols elf ''read'' \<noteq> None then
        \<lparr> m_requiredGadgets = [],
          m_syscallGadget = Some (BaseOffsetExpr SYM (elf_filename elf) ''read'') \<rparr>
      else \<lparr> m_requiredGadgets = [], m_syscallGadget = None \<rparr>)"

definition checkRequirements :: "technique_env \<Rightarrow> Ret2syscall \<Rightarrow> bool" where
  "checkRequirements env t =
     (Technique_checkRequirements env (m_requiredGadgets t) \<and> m_syscallGadget t \<noteq> None)"

subsection \<open>getLsbOfReadSyscall\<close>

text \<open>
  \<open>std::vector<uint8_t> code(f.size)\<close> filled by \<open>seekg(f.address)\<close> and
  \<open>read(code.data(), f.size)\<close>: the bytes of the file from that offset, and zeros where
  the file ends before \<open>f.size\<close> bytes are read.
\<close>

definition readCode :: "u8 list \<Rightarrow> u64 \<Rightarrow> u64 \<Rightarrow> u8 list" where
  "readCode bytes address sz =
     (let got = take (unat sz) (drop (unat address) bytes)
      in got @ replicate (unat sz - length got) 0)"

text \<open>
  The loop over the disassembled instructions: at the first \<open>syscall\<close> it takes the
  address, checks the assertion and leaves the loop; \<open>syscallOffset\<close> keeps its initial
  value \<open>-1\<close> when there is none.
\<close>

fun scanForSyscall :: "Function \<Rightarrow> Instruction list \<Rightarrow> u64 \<Rightarrow> exn + u64" where
  "scanForSyscall f [] syscallOffset = Inr syscallOffset"
| "scanForSyscall f (i # rest) syscallOffset =
     (if mnemonic i = ''syscall'' then
        (if (insn_address i AND 0xff00) = (fn_address f AND 0xff00)
         then Inr (insn_address i)
         else Inl AssertionFailed)
      else scanForSyscall f rest syscallOffset)"

definition getLsbOfReadSyscall :: "technique_env \<Rightarrow> ELF \<Rightarrow> exn + u8" where
  "getLsbOfReadSyscall env libc =
     (case elf_functions libc ''__read'' of
        None \<Rightarrow> Inl OutOfRange
      | Some f \<Rightarrow>
          (let code = readCode (fileBytes libc) (fn_address f) (fn_size f)
           in case scanForSyscall f (disasm env code (fn_address f)) (- 1) of
                Inl t \<Rightarrow> Inl t
              | Inr syscallOffset \<Rightarrow> Inr (ucast (syscallOffset AND 0xff))))"

subsection \<open>getRopSubchains\<close>

text \<open>
  Modelled from the spec: \<open>ljust\<close> (\<open>Utils/StringUtil.h\<close>) is not among the sources. The
  spec's padding policy is to "right-pad with a fill byte to a target length".
\<close>

definition ljust :: "u8 list \<Rightarrow> nat \<Rightarrow> u8 \<Rightarrow> u8 list" where
  "ljust s n fill = s @ replicate (n - length s) fill"

text \<open>The bytes of a string literal.\<close>

definition bytesOf :: "string \<Rightarrow> u8 list" where
  "bytesOf s = map (\<lambda>c. of_nat (of_char c)) s"

text \<open>\<open>v[0]\<close> on the vector a call of Ret2csu returns; on an empty vector it is out of range.\<close>

definition first :: "RopSubchain list \<Rightarrow> exn + RopSubchain" where
  "first v = (case v of [] \<Rightarrow> Inl OutOfRange | x # xs \<Rightarrow> Inr x)"

definition getRopSubchains ::
  "technique_env \<Rightarrow> Ret2syscall \<Rightarrow> ELF \<Rightarrow> ELF \<Rightarrow> exn + RopSubchain list" where
  "getRopSubchains env t elf libc =
     (case getTechnique_Ret2csu env of
        None \<Rightarrow> Inl AssertionFailed
      | Some ret2csu \<Rightarrow>
     (case first (ret2csu (m_syscallGadget t)
                    (ConstantExpr 0 64)
                    (BaseOffsetExpr GOT (elf_filename elf) ''read'')
                    (ConstantExpr 1 64)) of
        Inl ex \<Rightarrow> Inl ex
      | Inr part1 \<Rightarrow>
     (case first (ret2csu (m_syscallGadget t)
                    (ConstantExpr 1 64)
                    (ConstantExpr 0 64)
                    (ConstantExpr 0 64)) of
        Inl ex \<Rightarrow> Inl ex
      | Inr part2 \<Rightarrow>
     (case first (ret2csu (m_syscallGadget t)
                    (ConstantExpr 0 64)
                    (BaseOffsetExpr BSS (elf_filename elf) [])
                    (ConstantExpr 59 64)) of
        Inl ex \<Rightarrow> Inl ex
      | Inr part3 \<Rightarrow>
     (case first (ret2csu (m_syscallGadget t)
                    (BaseOffsetExpr BSS (elf_filename elf) [])
                    (ConstantExpr 0 64)
                    (ConstantExpr 0 64)) of
        Inl ex \<Rightarrow> Inl ex
      | Inr part4 \<Rightarrow>
     (let ret1 = [ConstantExpr 0 64] @ part1 @ part2 @ part3 @ part4
      in case getLsbOfReadSyscall env libc of
           Inl ex \<Rightarrow> Inl ex
         | Inr lsb \<Rightarrow>
             (let ret2 = [ByteVectorExpr [lsb]];
                  ret3 = [ByteVectorExpr (ljust (bytesOf ''/bin/sh'') 59 0x00)]
              in Inr [ret1, ret2, ret3])))))))"

section \<open>LeakBasedCoreGenerator.cpp\<close>

subsection \<open>The recorded timeline (IOStates)\<close>

datatype LeakType = UNKNOWN | CODE | LIBC | HEAP | STACK | CANARY

record InputStateInfo =
  buf :: "u8 list"
  offset :: u64

record OutputStateInfo =
  isInteresting :: bool
  bufIndex :: u64
  baseOffset :: u64
  leakType :: LeakType

record SleepStateInfo =
  sec :: u64

datatype StateInfo =
    InputState InputStateInfo
  | OutputState OutputStateInfo
  | SleepState SleepStateInfo

text \<open>
  The per-state data of the IOStates module. The constructor sets
  \<open>lastInputStateInfoIdxBeforeFirstSymbolicRip\<close> to \<open>-1\<close>, which in the 32-bit unsigned
  field is \<open>0xffffffff\<close>.
\<close>

record IOStates_State =
  leakableOffset :: u64
  lastInputStateInfoIdx :: u32
  lastInputStateInfoIdxBeforeFirstSymbolicRip :: u32
  currentLeakTargetIdx :: u32
  stateInfoList :: "StateInfo list"

subsection \<open>The output sink and the input stream\<close>

text \<open>
  The exploit script is an append-only sequence of the three operations the generator
  calls on \<open>Exploit\<close>: \<open>writeline\<close>, \<open>appendRopPayload\<close> and \<open>flushRopPayload\<close>.
\<close>

datatype sink_op =
    Writeline string
  | AppendRopPayload string
  | FlushRopPayload

text \<open>
  Modelled from the spec: \<open>InputStream\<close> (\<open>InputStream.h\<close>) is not among the sources. It
  is a cursor over the bytes of \<open>stage1\<close> that counts the bytes read and the bytes skipped;
  both \<open>read(n)\<close> and \<open>skip(n)\<close> consume \<open>n\<close> bytes ("consumed from the input stream
  without emitting a send"), and \<open>read\<close> gives the bytes it passes over.
\<close>

record InputStream =
  stream_bytes :: "u8 list"
  nrBytesRead :: nat
  nrBytesSkipped :: nat

definition getNrBytesConsumed :: "InputStream \<Rightarrow> nat" where
  "getNrBytesConsumed s = nrBytesRead s + nrBytesSkipped s"

definition stream_read :: "nat \<Rightarrow> InputStream \<Rightarrow> u8 list \<times> InputStream" where
  "stream_read n s =
     (take n (drop (getNrBytesConsumed s) (stream_bytes s)), s\<lparr> nrBytesRead := nrBytesRead s + n \<rparr>)"

definition stream_skip :: "nat \<Rightarrow> InputStream \<Rightarrow> InputStream" where
  "stream_skip n s = s\<lparr> nrBytesSkipped := nrBytesSkipped s + n \<rparr>"

text \<open>
  The text helpers the generator calls and the sources do not define: \<open>format\<close> with
  \<open>%d\<close> and with \<open>%x\<close>, \<open>std::to_string\<close>, \<open>toByteString\<close>, \<open>evaluate<std::string>\<close>,
  \<open>IOStates::toString\<close> of a leak type and \<open>toString\<close> of the module state.
\<close>

record text_env =
  format_d :: "u64 \<Rightarrow> string"
  format_x :: "u64 \<Rightarrow> string"
  to_string :: "nat \<Rightarrow> string"
  toByteString :: "u8 list \<Rightarrow> string"
  evaluate :: "expr \<Rightarrow> string"
  leakTypeToString :: "LeakType \<Rightarrow> string"
  modStateToString :: "IOStates_State \<Rightarrow> string"

subsection \<open>The visitor\<close>

text \<open>
  The visitor's parameters that do not change during a visit; the script written so far
  and the input stream are passed along as a pair.
\<close>

record visitor =
  v_elf :: ELF
  v_ropChain :: "RopSubchain list"
  v_modState :: IOStates_State
  v_i :: u64

type_synonym gen_state = "sink_op list \<times> InputStream"

text \<open>
  \<open>assert(-1 != modState.lastInputStateInfoIdxBeforeFirstSymbolicRip)\<close>: the \<open>-1\<close> is
  converted to the unsigned type of the field. The index \<open>i\<close> is a \<open>size_t\<close>, the two
  fields are widened to it.
\<close>

definition shouldSkipInputState :: "visitor \<Rightarrow> exn + bool" where
  "shouldSkipInputState v =
     (if lastInputStateInfoIdxBeforeFirstSymbolicRip (v_modState v) = - 1
      then Inl AssertionFailed
      else Inr (v_i v \<noteq> ucast (lastInputStateInfoIdx (v_modState v)) \<and>
                v_i v \<ge> ucast (lastInputStateInfoIdxBeforeFirstSymbolicRip (v_modState v))))"

definition handleStage1 :: "text_env \<Rightarrow> visitor \<Rightarrow> InputStateInfo \<Rightarrow> gen_state \<Rightarrow> exn + gen_state" where
  "handleStage1 T v stateInfo g =
     (let (exploit, inputStream) = g in
      if \<not> hasCanary (v_elf v) \<and> \<not> hasPIE (v_elf v) then
        (case v_ropChain v of
           [] \<Rightarrow> Inl OutOfRange
         | chain0 # others \<Rightarrow>
             if length chain0 \<noteq> 1 then Inl AssertionFailed
             else
               (let (bytes, inputStream') = stream_read (unat (offset stateInfo)) inputStream;
                    s = evaluate T (ByteVectorExpr bytes)
                in Inr (exploit @ [AppendRopPayload s, FlushRopPayload], inputStream')))
      else
        (let s = ''solve_stage1(canary, elf_base, '' @ [CHR 0x27] @
                   modStateToString T (v_modState v) @ [CHR 0x27] @ '')'' @
                 ''['' @ to_string T (nrBytesRead inputStream) @ '':'' @
                 (if nrBytesSkipped inputStream \<noteq> 0
                  then to_string T (getNrBytesConsumed inputStream) else []) @
                 '']''
         in Inr (exploit @ [AppendRopPayload s, FlushRopPayload], inputStream)))"

text \<open>The payload of the subchains after the first: each expression, then a flush.\<close>

definition restOfChain :: "text_env \<Rightarrow> RopSubchain list \<Rightarrow> sink_op list" where
  "restOfChain T ropChain =
     concat (map (\<lambda>sub. map (\<lambda>e. AppendRopPayload (evaluate T e)) sub @ [FlushRopPayload])
                 (drop 1 ropChain))"

definition visitInput :: "text_env \<Rightarrow> visitor \<Rightarrow> InputStateInfo \<Rightarrow> gen_state \<Rightarrow> exn + gen_state" where
  "visitInput T v stateInfo g =
     (let (exploit, inputStream) = g in
      case shouldSkipInputState v of
        Inl ex \<Rightarrow> Inl ex
      | Inr True \<Rightarrow>
          Inr (exploit @ [Writeline (''# input state (offset = '' @ format_d T (offset stateInfo) @
                                      ''), skipped'')],
               stream_skip (unat (offset stateInfo)) inputStream)
      | Inr False \<Rightarrow>
          (let exploit1 = exploit @
                 [Writeline (''# input state (offset = '' @ format_d T (offset stateInfo) @ '')'')]
           in if v_i v \<noteq> ucast (lastInputStateInfoIdx (v_modState v)) then
                (let (bytes, inputStream') = stream_read (unat (offset stateInfo)) inputStream
                 in Inr (exploit1 @ [Writeline (''proc.send('' @ toByteString T bytes @ '')'')],
                         inputStream'))
              else
                (case handleStage1 T v stateInfo
                        (exploit1 @ [Writeline ''# input state (rop chain begin)''], inputStream) of
                   Inl ex \<Rightarrow> Inl ex
                 | Inr (exploit2, inputStream') \<Rightarrow>
                     Inr (exploit2 @ restOfChain T (v_ropChain v), inputStream'))))"

definition visitOutput :: "text_env \<Rightarrow> OutputStateInfo \<Rightarrow> gen_state \<Rightarrow> gen_state" where
  "visitOutput T stateInfo g =
     (let (exploit, inputStream) = g;
          exploit1 = exploit @ [Writeline ''# output state'']
      in if \<not> isInteresting stateInfo then
           (exploit1 @ [Writeline ''proc.recvrepeat(0.1)''], inputStream)
         else
           (let exploit2 = exploit1 @
                  [Writeline (''# leaking: '' @ leakTypeToString T (leakType stateInfo))]
            in if leakType stateInfo = CANARY then
                 (exploit2 @
                    [Writeline (''proc.recv('' @ format_d T (bufIndex stateInfo) @ '')''),
                     Writeline (''canary = u64(b'' @ [CHR 0x27, CHR 0x5c] @ ''x00'' @ [CHR 0x27] @
                                '' + proc.recv(7))''),
                     Writeline (''log.info('' @ [CHR 0x27] @ ''leaked canary: {}'' @ [CHR 0x27] @
                                ''.format(hex(canary)))'')],
                  inputStream)
               else
                 (exploit2 @
                    [Writeline (''proc.recv('' @ format_d T (bufIndex stateInfo) @ '')''),
                     Writeline (''elf_leak = u64(proc.recv(6).ljust(8, b'' @ [CHR 0x27, CHR 0x5c] @
                                ''x00'' @ [CHR 0x27] @ ''))''),
                     Writeline (''elf_base = elf_leak - 0x'' @ format_x T (baseOffset stateInfo)),
                     Writeline (''log.info('' @ [CHR 0x27] @ ''leaked elf_base: {}'' @ [CHR 0x27] @
                                ''.format(hex(elf_base)))'')],
                  inputStream)))"

definition visitSleep :: "text_env \<Rightarrow> SleepStateInfo \<Rightarrow> gen_state \<Rightarrow> gen_state" where
  "visitSleep T stateInfo g =
     (let (exploit, inputStream) = g
      in (exploit @ [Writeline ''# sleep state'',
                     Writeline (''sleep('' @ format_d T (sec stateInfo) @ '')'')],
          inputStream))"

text \<open>\<open>std::visit\<close> on one element of the timeline.\<close>

fun visit :: "text_env \<Rightarrow> visitor \<Rightarrow> StateInfo \<Rightarrow> gen_state \<Rightarrow> exn + gen_state" where
  "visit T v (InputState stateInfo) g = visitInput T v stateInfo g"
| "visit T v (OutputState stateInfo) g = Inr (visitOutput T stateInfo g)"
| "visit T v (SleepState stateInfo) g = Inr (visitSleep T stateInfo g)"

text \<open>
  The loop of \<open>generateMainFunction\<close> from index \<open>i\<close> on: an empty line, then the visit of
  the element with its index.
\<close>

fun walk ::
  "text_env \<Rightarrow> ELF \<Rightarrow> RopSubchain list \<Rightarrow> IOStates_State \<Rightarrow> u64 \<Rightarrow> StateInfo list \<Rightarrow>
   gen_state \<Rightarrow> exn + gen_state" where
  "walk T elf ropChain modState i [] g = Inr g"
| "walk T elf ropChain modState i (stateInfo # rest) g =
     (case visit T \<lparr> v_elf = elf, v_ropChain = ropChain, v_modState = modState, v_i = i \<rparr>
             stateInfo (fst g @ [Writeline []], snd g) of
        Inl ex \<Rightarrow> Inl ex
      | Inr g' \<Rightarrow> walk T elf ropChain modState (i + 1) rest g')"

definition generateMainFunction ::
  "text_env \<Rightarrow> ELF \<Rightarrow> IOStates_State \<Rightarrow> RopSubchain list \<Rightarrow> u8 list \<Rightarrow> sink_op list \<Rightarrow>
   exn + gen_state" where
  "generateMainFunction T elf modState ropChain stage1 exploit =
     walk T elf ropChain modState 0 (stateInfoList modState)
       (exploit, \<lparr> stream_bytes = stage1, nrBytesRead = 0, nrBytesSkipped = 0 \<rparr>)"

text \<open>
  An operation that sends: a \<open>proc.send\<close> line, or payload handed to the script.
\<close>

fun isSend :: "sink_op \<Rightarrow> bool" where
  "isSend (Writeline l) = (take 10 l = ''proc.send('')"
| "isSend (AppendRopPayload p) = True"
| "isSend FlushRopPayload = True"

section \<open>Concrete inputs\<close>

text \<open>
  A small memory: three bytes at \<open>0x1000\<close>, the middle one symbolic, and nothing readable
  behind them.
\<close>

definition ex_mem :: engine where
  "ex_mem = \<lparr> mem_symbolic = (\<lambda>a n. a = 0x1001),
     mem_read1 = (\<lambda>a. if a = 0x1000 then Some 0x41 else if a = 0x1002 then Some 0x43 else None),
     mem_readN = (\<lambda>a n. None),
     mem_hostAddress = (\<lambda>a. 0x1000 \<le> a \<and> a < 0x2000),
     iterateRegions = [],
     reg_rsp = 0x7000,
     TARGET_PAGE_SIZE = 0x1000,
     MM_READ = 1,
     MM_WRITE = 2 \<rparr>"

text \<open>The region of the three bytes of \<open>ex_mem\<close>.\<close>

definition ex_region :: MemoryRegion where
  "ex_region = \<lparr> start = 0x1000, end_addr = 0x1003, prot = 1 \<rparr>"

text \<open>
  Four concrete bytes \<open>41 42 43 44\<close> at \<open>0x1000\<close>, reported by the map plugin as two
  adjacent regions of two bytes each, and a stack of one mapped page at \<open>0x7000\<close>.
\<close>

definition ex_two :: engine where
  "ex_two = \<lparr> mem_symbolic = (\<lambda>a n. False),
     mem_read1 = (\<lambda>a. if a = 0x1000 then Some 0x41 else if a = 0x1001 then Some 0x42
                      else if a = 0x1002 then Some 0x43 else if a = 0x1003 then Some 0x44
                      else None),
     mem_readN = (\<lambda>a n. None),
     mem_hostAddress = (\<lambda>a. (0x1000 \<le> a \<and> a < 0x1004) \<or> (0x7000 \<le> a \<and> a < 0x8000)),
     iterateRegions = [\<lparr> start = 0x1000, end_addr = 0x1002, prot = 1 \<rparr>,
                       \<lparr> start = 0x1002, end_addr = 0x1004, prot = 1 \<rparr>],
     reg_rsp = 0x7ff8,
     TARGET_PAGE_SIZE = 0x1000,
     MM_READ = 1,
     MM_WRITE = 2 \<rparr>"

text \<open>
  Two stack pages at \<open>0x4000\<close> that the map plugin does not report, directly below a
  reported region of three mapped pages at \<open>0x6000\<close>; the stack pointer is in the upper
  stack page.
\<close>

definition ex_adjacent :: engine where
  "ex_adjacent = \<lparr> mem_symbolic = (\<lambda>a n. False),
     mem_read1 = (\<lambda>a. None),
     mem_readN = (\<lambda>a n. None),
     mem_hostAddress = (\<lambda>a. 0x4000 \<le> a \<and> a < 0x9000),
     iterateRegions = [\<lparr> start = 0x6000, end_addr = 0x9000, prot = 1 \<rparr>],
     reg_rsp = 0x5ff0,
     TARGET_PAGE_SIZE = 0x1000,
     MM_READ = 1,
     MM_WRITE = 2 \<rparr>"

text \<open>
  A plugin state with one execution state, number 1, whose queue is empty; a solver that
  accepts everything but a value for \<open>RDI\<close>; a map in which addresses from \<open>0x400000\<close> to
  \<open>0x500000\<close> belong to the module \<open>target\<close> and those from \<open>0x7f0000000000\<close> on to
  \<open>libc.so.6\<close>; and a user-specified ELF base.
\<close>

definition ex_crax :: crax where
  "ex_crax = \<lparr> currentState = 1,
     moduleStates = [1 \<mapsto> \<lparr> constraintsQueue = [] \<rparr>],
     m_currentConstraintGroup = [],
     events = [],
     warnings = [] \<rparr>"

definition ex_env :: rop_env where
  "ex_env = \<lparr> addRegisterConstraint = (\<lambda>evs s r e. r \<noteq> RDI),
     addMemoryConstraint = (\<lambda>evs s a e. True),
     mapInfo_find = (\<lambda>s a. if 0x400000 \<le> a \<and> a < 0x500000 then Some ''target''
                            else if 0x7f0000000000 \<le> a then Some ''libc.so.6'' else None),
     s_elfLabel = ''target'',
     rebaseAddress = (\<lambda>a base. base + (a - 0x400000)),
     getUserSpecifiedElfBase = 0x555555554000 \<rparr>"

definition ex_G1 :: "Constraint list" where
  "ex_G1 = [RegisterConstraint RDI (ConstantExpr 0x7f0000001000 64),
            MemoryConstraint 0x601000 (ConstantExpr 2 64)]"

definition ex_G2 :: "Constraint list" where
  "ex_G2 = [RegisterConstraint RIP (ConstantExpr 0x401136 64)]"

text \<open>The state after both groups are committed, and the traces the two triggers leave.\<close>

definition ex_queued :: crax where
  "ex_queued = ex_crax\<lparr> moduleStates := [1 \<mapsto> \<lparr> constraintsQueue = [ex_G1, ex_G2] \<rparr>] \<rparr>"

definition ex_trace1 :: "event list" where
  "ex_trace1 =
     [AddRegisterConstraint 1 RDI (ConstantExpr 0x7f0000001000 64),
      RegWriteSymbolic 1 RDI (ConstantExpr 0x7f0000001000 64),
      TerminateState 1 ''Dynamic ROP failed'',
      AddMemoryConstraint 1 0x601000 (ConstantExpr 2 64),
      MemWriteSymbolic 1 0x601000 (ConstantExpr 2 64)]"

definition ex_trace2 :: "event list" where
  "ex_trace2 =
     [AddRegisterConstraint 1 RIP (ConstantExpr 0x555555555136 64),
      RegWriteSymbolic 1 RIP (ConstantExpr 0x401136 64)]"

text \<open>
  A target without canary, PIE and full RELRO that has the symbol \<open>read\<close> and no
  \<open>syscall ; ret\<close> gadget; a libc whose \<open>__read\<close> is at \<open>0x110020\<close> with its \<open>syscall\<close>
  instruction 15 bytes in; a Ret2csu that returns one subchain holding the gadget and the
  three arguments.
\<close>

definition ex_elf :: ELF where
  "ex_elf = \<lparr> elf_filename = ''target'', hasCanary = False, hasPIE = False,
     hasFullRELRO = False, elf_symbols = [''read'' \<mapsto> 0x401030],
     elf_functions = Map.empty, fileBytes = [] \<rparr>"

definition ex_libc :: ELF where
  "ex_libc = \<lparr> elf_filename = ''libc.so.6'', hasCanary = True, hasPIE = True,
     hasFullRELRO = True, elf_symbols = Map.empty,
     elf_functions = [''__read'' \<mapsto> \<lparr> fn_address = 0x110020, fn_size = 0x20 \<rparr>],
     fileBytes = [] \<rparr>"

definition ex_ret2csu :: ret2csu_fun where
  "ex_ret2csu gadget a1 a2 a3 = [(case gadget of None \<Rightarrow> [] | Some g \<Rightarrow> [g]) @ [a1, a2, a3]]"

definition ex_tenv :: technique_env where
  "ex_tenv = \<lparr> resolveGadget = (\<lambda>elf a. False),
     toVarName = (\<lambda>a. a),
     Technique_checkRequirements = (\<lambda>gs. True),
     getTechnique_Ret2csu = Some ex_ret2csu,
     disasm = (\<lambda>code address.
        [\<lparr> insn_address = address, mnemonic = ''mov'', opStr = ''eax, 0'' \<rparr>,
         \<lparr> insn_address = address + 0xf, mnemonic = ''syscall'', opStr = [] \<rparr>,
         \<lparr> insn_address = address + 0x11, mnemonic = ''cmp'', opStr = ''rax, -0x1000'' \<rparr>,
         \<lparr> insn_address = address + 0x1f, mnemonic = ''syscall'', opStr = [] \<rparr>]) \<rparr>"

text \<open>
  A timeline of three input states: the first is sent, the second, at the tracker's index
  before the first symbolic RIP, is neither before it nor the injection index, and the
  third, at index 2, takes the ROP chain. The text helpers print placeholders.
\<close>

definition ex_text :: text_env where
  "ex_text = \<lparr> format_d = (\<lambda>w. ''<d>''), format_x = (\<lambda>w. ''<x>''), to_string = (\<lambda>n. ''<n>''),
     toByteString = (\<lambda>bs. ''<bytes>''), evaluate = (\<lambda>e. ''<expr>''),
     leakTypeToString = (\<lambda>t. ''<leak>''), modStateToString = (\<lambda>s. ''<state>'') \<rparr>"

definition ex_modState :: IOStates_State where
  "ex_modState = \<lparr> leakableOffset = 0, lastInputStateInfoIdx = 2,
     lastInputStateInfoIdxBeforeFirstSymbolicRip = 1, currentLeakTargetIdx = 0,
     stateInfoList = [InputState \<lparr> buf = [], offset = 4 \<rparr>,
                      InputState \<lparr> buf = [], offset = 8 \<rparr>,
                      InputState \<lparr> buf = [], offset = 16 \<rparr>] \<rparr>"

definition ex_stream :: InputStream where
  "ex_stream = \<lparr> stream_bytes = replicate 28 0x41, nrBytesRead = 0, nrBytesSkipped = 0 \<rparr>"

text \<open>
  The example plugin state with the group \<open>ex_G2\<close>, a constraint on \<open>RIP\<close>, at the front
  of the queue.
\<close>

definition ex_rip_queued :: crax where
  "ex_rip_queued = ex_crax\<lparr> moduleStates := [1 \<mapsto> \<lparr> constraintsQueue = [ex_G2] \<rparr>] \<rparr>"

text \<open>
  A small disassembler that reads its bytes: \<open>0f 05\<close> is \<open>syscall\<close>, \<open>c3\<close> is \<open>ret\<close>, any
  other byte a one-byte \<open>nop\<close>. A libc file that holds the routine \<open>nop nop nop syscall
  ret syscall\<close> at offset \<open>0x110020\<close> and again at \<open>0x1100fe\<close>, where the \<open>syscall\<close> falls
  behind the 256-byte boundary.
\<close>

fun ex_disasm :: "u8 list \<Rightarrow> u64 \<Rightarrow> Instruction list" where
  "ex_disasm [] a = []"
| "ex_disasm [b] a =
     [\<lparr> insn_address = a, mnemonic = (if b = 0xc3 then ''ret'' else ''nop''), opStr = [] \<rparr>]"
| "ex_disasm (b # c # bs) a =
     (if b = 0x0f \<and> c = 0x05
      then \<lparr> insn_address = a, mnemonic = ''syscall'', opStr = [] \<rparr> # ex_disasm bs (a + 2)
      else \<lparr> insn_address = a, mnemonic = (if b = 0xc3 then ''ret'' else ''nop''), opStr = [] \<rparr> #
           ex_disasm (c # bs) (a + 1))"

definition ex_read_code :: "u8 list" where
  "ex_read_code = [0x90, 0x90, 0x90, 0x0f, 0x05, 0xc3, 0x0f, 0x05]"

definition ex_libc_file :: ELF where
  "ex_libc_file = \<lparr> elf_filename = ''libc.so.6'', hasCanary = True, hasPIE = True,
     hasFullRELRO = True, elf_symbols = Map.empty,
     elf_functions = [''__read'' \<mapsto> \<lparr> fn_address = 0x110020, fn_size = 8 \<rparr>],
     fileBytes = replicate 0x110020 0 @ ex_read_code @ replicate 0xd6 0 @ ex_read_code \<rparr>"

definition ex_tenv_disasm :: technique_env where
  "ex_tenv_disasm = \<lparr> resolveGadget = (\<lambda>elf a. False),
     toVarName = (\<lambda>a. a),
     Technique_checkRequirements = (\<lambda>gs. True),
     getTechnique_Ret2csu = None,
     disasm = ex_disasm \<rparr>"

section \<open>Properties of readConcrete\<close>

lemma readConcrete_loop_fault:
  assumes "i \<le> j" "j < sz" "faultAt e virtAddr j"
  shows "\<exists>k. readConcrete_loop e virtAddr sz i ret = ([], [CannotReadConcrete (virtAddr + of_nat k)])"
  using assms
proof (induction e virtAddr sz i ret rule: readConcrete_loop.induct)
  case (1 e virtAddr sz i ret)
  show ?case
  proof (cases "isSymbolic e (virtAddr + of_nat i) 1")
    case True
    with "1.prems" have "i \<noteq> j" by (auto simp: faultAt_def)
    with "1.prems" have "Suc i \<le> j" by simp
    with "1.IH"(1) True "1.prems" show ?thesis
      by (subst readConcrete_loop.simps) simp
  next
    case False
    show ?thesis
    proof (cases "mem_read1 e (virtAddr + of_nat i)")
      case None
      with False "1.prems" show ?thesis
        by (subst readConcrete_loop.simps) auto
    next
      case (Some b)
      with "1.prems" have "i \<noteq> j" by (auto simp: faultAt_def)
      with "1.prems" have "Suc i \<le> j" by simp
      with "1.IH"(2) False Some "1.prems" show ?thesis
        by (subst readConcrete_loop.simps) simp
    qed
  qed
qed

lemma readConcrete_loop_ok:
  assumes "\<forall>j. i \<le> j \<and> j < sz \<longrightarrow> \<not> faultAt e virtAddr j" "length ret = sz"
  shows "\<exists>ret'. readConcrete_loop e virtAddr sz i ret = (ret', []) \<and> length ret' = sz \<and>
           (\<forall>j < sz. ret' ! j =
              (if j < i \<or> isSymbolic e (virtAddr + of_nat j) 1 then ret ! j
               else the (mem_read1 e (virtAddr + of_nat j))))"
  using assms
proof (induction e virtAddr sz i ret rule: readConcrete_loop.induct)
  case (1 e virtAddr sz i ret)
  show ?case
  proof (cases "i < sz")
    case False
    with "1.prems" show ?thesis
      by (subst readConcrete_loop.simps) simp
  next
    case lt: True
    show ?thesis
    proof (cases "isSymbolic e (virtAddr + of_nat i) 1")
      case True
      from "1.prems" have "\<forall>j. Suc i \<le> j \<and> j < sz \<longrightarrow> \<not> faultAt e virtAddr j" by simp
      from "1.IH"(1) [OF lt True this "1.prems"(2)]
      obtain ret' where r: "readConcrete_loop e virtAddr sz (Suc i) ret = (ret', [])"
        "length ret' = sz"
        "\<forall>j < sz. ret' ! j =
              (if j < Suc i \<or> isSymbolic e (virtAddr + of_nat j) 1 then ret ! j
               else the (mem_read1 e (virtAddr + of_nat j)))" by blast
      have "readConcrete_loop e virtAddr sz i ret = (ret', [])"
        using lt True r(1) by (subst readConcrete_loop.simps) simp
      moreover have "\<forall>j < sz. ret' ! j =
              (if j < i \<or> isSymbolic e (virtAddr + of_nat j) 1 then ret ! j
               else the (mem_read1 e (virtAddr + of_nat j)))"
        using r(3) True by (auto simp: less_Suc_eq)
      ultimately show ?thesis using r(2) by blast
    next
      case False
      from "1.prems"(1) lt False obtain b where b: "mem_read1 e (virtAddr + of_nat i) = Some b"
        by (auto simp: faultAt_def)
      from "1.prems" have nf: "\<forall>j. Suc i \<le> j \<and> j < sz \<longrightarrow> \<not> faultAt e virtAddr j" by simp
      have len: "length (ret[i := b]) = sz" using "1.prems"(2) by simp
      from "1.IH"(2) [OF lt False b nf len]
      obtain ret' where r: "readConcrete_loop e virtAddr sz (Suc i) (ret[i := b]) = (ret', [])"
        "length ret' = sz"
        "\<forall>j < sz. ret' ! j =
              (if j < Suc i \<or> isSymbolic e (virtAddr + of_nat j) 1 then (ret[i := b]) ! j
               else the (mem_read1 e (virtAddr + of_nat j)))" by blast
      have "readConcrete_loop e virtAddr sz i ret = (ret', [])"
        using lt False b r(1) by (subst readConcrete_loop.simps) simp
      moreover have "\<forall>j < sz. ret' ! j =
              (if j < i \<or> isSymbolic e (virtAddr + of_nat j) 1 then ret ! j
               else the (mem_read1 e (virtAddr + of_nat j)))"
      proof (intro allI impI)
        fix j assume j: "j < sz"
        show "ret' ! j =
              (if j < i \<or> isSymbolic e (virtAddr + of_nat j) 1 then ret ! j
               else the (mem_read1 e (virtAddr + of_nat j)))"
        proof (cases "j = i")
          case True
          with r(3) j False b "1.prems"(2) show ?thesis by simp
        next
          case ne: False
          with r(3) j show ?thesis by (auto simp: less_Suc_eq)
        qed
      qed
      ultimately show ?thesis using r(2) by blast
    qed
  qed
qed


lemma ex_less_3: "(\<exists>j<(3::nat). P j) = (P 0 \<or> P 1 \<or> P 2)"
proof -
  have "\<And>j::nat. j < 3 \<longleftrightarrow> j = 0 \<or> j = 1 \<or> j = 2" by arith
  then show ?thesis by auto
qed

text \<open>
  C7. \<open>readConcrete(addr, len, false)\<close> does not fail because bytes of the range are
  symbolic. When some byte of the range is not symbolic and cannot be read (a memory
  fault), the warning is written and the result is the cleared, empty vector. Otherwise,
  however many bytes are symbolic, no warning is written, the result has \<open>len\<close> bytes and
  every byte that is not symbolic holds the value read from memory.
\<close>

theorem readConcrete_skips_symbolic:
  "((\<exists>j < unat sz. faultAt e virtAddr j) \<longrightarrow>
      (\<exists>a. readConcrete e virtAddr sz False = ([], [CannotReadConcrete a]))) \<and>
   (\<not> (\<exists>j < unat sz. faultAt e virtAddr j) \<longrightarrow>
      (\<exists>ret. readConcrete e virtAddr sz False = (ret, []) \<and> length ret = unat sz \<and>
         (\<forall>j < unat sz. \<not> isSymbolic e (virtAddr + of_nat j) 1 \<longrightarrow>
            mem_read1 e (virtAddr + of_nat j) = Some (ret ! j))))"
proof (intro conjI impI)
  assume "\<exists>j < unat sz. faultAt e virtAddr j"
  then obtain j where "j < unat sz" "faultAt e virtAddr j" by blast
  from readConcrete_loop_fault [OF _ this, of 0 "replicate (unat sz) 0"]
  show "\<exists>a. readConcrete e virtAddr sz False = ([], [CannotReadConcrete a])"
    by (auto simp: readConcrete_def)
next
  assume nf: "\<not> (\<exists>j < unat sz. faultAt e virtAddr j)"
  then have "\<forall>j. 0 \<le> j \<and> j < unat sz \<longrightarrow> \<not> faultAt e virtAddr j" by simp
  from readConcrete_loop_ok [OF this, of "replicate (unat sz) 0"]
  obtain ret where r: "readConcrete_loop e virtAddr (unat sz) 0 (replicate (unat sz) 0) = (ret, [])"
    "length ret = unat sz"
    "\<forall>j < unat sz. ret ! j =
       (if j < 0 \<or> isSymbolic e (virtAddr + of_nat j) 1 then replicate (unat sz) 0 ! j
        else the (mem_read1 e (virtAddr + of_nat j)))" by auto
  have "\<forall>j < unat sz. \<not> isSymbolic e (virtAddr + of_nat j) 1 \<longrightarrow>
            mem_read1 e (virtAddr + of_nat j) = Some (ret ! j)"
  proof (intro allI impI)
    fix j assume j: "j < unat sz" "\<not> isSymbolic e (virtAddr + of_nat j) 1"
    with nf have "mem_read1 e (virtAddr + of_nat j) \<noteq> None" by (auto simp: faultAt_def)
    with r(3) j show "mem_read1 e (virtAddr + of_nat j) = Some (ret ! j)" by auto
  qed
  with r(1,2) show "\<exists>ret. readConcrete e virtAddr sz False = (ret, []) \<and> length ret = unat sz \<and>
         (\<forall>j < unat sz. \<not> isSymbolic e (virtAddr + of_nat j) 1 \<longrightarrow>
            mem_read1 e (virtAddr + of_nat j) = Some (ret ! j))"
    by (simp add: readConcrete_def)
qed

text \<open>
  On \<open>ex_mem\<close>: three bytes with the middle one symbolic are read without a warning; a
  fourth byte, not symbolic and unreadable, clears the result.
\<close>

theorem readConcrete_skips_symbolic_witness:
  "faultAt ex_mem 0x1000 3 \<and>
   readConcrete ex_mem 0x1000 4 False = ([], [CannotReadConcrete 0x1003]) \<and>
   isSymbolic ex_mem 0x1001 1 \<and>
   readConcrete ex_mem 0x1000 3 False = ([0x41, 0, 0x43], [])"
proof -
  have nf: "\<not> (\<exists>j < unat (3::u64). faultAt ex_mem 0x1000 j)"
    by (simp add: ex_less_3 faultAt_def ex_mem_def isSymbolic_def)
  have f: "\<exists>j < unat (4::u64). faultAt ex_mem 0x1000 j"
    by (rule exI [of _ 3]) (simp add: faultAt_def ex_mem_def isSymbolic_def)
  have v3: "readConcrete ex_mem 0x1000 3 False = ([0x41, 0, 0x43], [])" by code_simp
  have v4: "readConcrete ex_mem 0x1000 4 False = ([], [CannotReadConcrete 0x1003])" by code_simp
  from readConcrete_skips_symbolic [where e = ex_mem and virtAddr = "0x1000" and sz = 3] nf
    readConcrete_skips_symbolic [where e = ex_mem and virtAddr = "0x1000" and sz = 4] f v3 v4
  show ?thesis
    by (simp add: ex_mem_def isSymbolic_def faultAt_def)
qed

lemma readConcrete_no_fault:
  assumes "\<not> (\<exists>j < unat sz. faultAt e virtAddr j)"
  shows "\<exists>ret. readConcrete e virtAddr sz False = (ret, []) \<and> length ret = unat sz \<and>
           (\<forall>j < unat sz. ret ! j =
              (if isSymbolic e (virtAddr + of_nat j) 1 then 0
               else the (mem_read1 e (virtAddr + of_nat j))))"
proof -
  from assms have "\<forall>j. 0 \<le> j \<and> j < unat sz \<longrightarrow> \<not> faultAt e virtAddr j" by simp
  from readConcrete_loop_ok [OF this, of "replicate (unat sz) 0"]
  show ?thesis by (auto simp: readConcrete_def)
qed

lemma skipUnmapped_mapped: "isMapped e s \<Longrightarrow> skipUnmapped e s en = s"
  by (subst skipUnmapped.simps) simp

text \<open>
  C10. A call \<open>readConcrete(addr, size, false)\<close> that meets no memory fault returns a vector
  of exactly \<open>size\<close> bytes, and every position whose address holds a symbolic byte contains
  0x00: the skipped bytes stay zero in place. \<open>search\<close> runs \<open>kmp\<close> over exactly this
  vector, read from the region's adjusted start to its end, so its haystack holds 0x00 at
  every symbolic position.
\<close>

theorem readConcrete_zero_fills_symbolic:
  "(\<not> (\<exists>j < unat sz. faultAt e virtAddr j) \<longrightarrow>
      length (fst (readConcrete e virtAddr sz False)) = unat sz \<and>
      (\<forall>j < unat sz. isSymbolic e (virtAddr + of_nat j) 1 \<longrightarrow>
           fst (readConcrete e virtAddr sz False) ! j = 0)) \<and>
   (let region_start = skipUnmapped e (start region) (end_addr region);
        haystack = regionHaystack e region_start (end_addr region)
    in region_start < end_addr region \<longrightarrow>
       searchRegion e kmp needle region = map (\<lambda>r. r + region_start) (kmp haystack needle) \<and>
       (\<not> (\<exists>j < unat (end_addr region - region_start). faultAt e region_start j) \<longrightarrow>
          length haystack = unat (end_addr region - region_start) \<and>
          (\<forall>j < length haystack. isSymbolic e (region_start + of_nat j) 1 \<longrightarrow> haystack ! j = 0)))"
proof (intro conjI impI)
  assume nf: "\<not> (\<exists>j < unat sz. faultAt e virtAddr j)"
  from readConcrete_no_fault [OF nf]
  show "length (fst (readConcrete e virtAddr sz False)) = unat sz" by auto
  from readConcrete_no_fault [OF nf]
  show "\<forall>j < unat sz. isSymbolic e (virtAddr + of_nat j) 1 \<longrightarrow>
           fst (readConcrete e virtAddr sz False) ! j = 0" by auto
next
  show "let region_start = skipUnmapped e (start region) (end_addr region);
        haystack = regionHaystack e region_start (end_addr region)
    in region_start < end_addr region \<longrightarrow>
       searchRegion e kmp needle region = map (\<lambda>r. r + region_start) (kmp haystack needle) \<and>
       (\<not> (\<exists>j < unat (end_addr region - region_start). faultAt e region_start j) \<longrightarrow>
          length haystack = unat (end_addr region - region_start) \<and>
          (\<forall>j < length haystack. isSymbolic e (region_start + of_nat j) 1 \<longrightarrow> haystack ! j = 0))"
    unfolding Let_def
  proof (intro impI conjI)
    assume lt: "skipUnmapped e (start region) (end_addr region) < end_addr region"
    then show "searchRegion e kmp needle region =
        map (\<lambda>r. r + skipUnmapped e (start region) (end_addr region))
          (kmp (regionHaystack e (skipUnmapped e (start region) (end_addr region)) (end_addr region)) needle)"
      by (simp add: searchRegion_def Let_def not_le [symmetric])
  next
    assume nf: "\<not> (\<exists>j < unat (end_addr region - skipUnmapped e (start region) (end_addr region)).
                 faultAt e (skipUnmapped e (start region) (end_addr region)) j)"
    from readConcrete_no_fault [OF nf]
    show "length (regionHaystack e (skipUnmapped e (start region) (end_addr region)) (end_addr region)) =
       unat (end_addr region - skipUnmapped e (start region) (end_addr region))"
      by (auto simp: regionHaystack_def)
    from readConcrete_no_fault [OF nf]
    show "\<forall>j < length (regionHaystack e (skipUnmapped e (start region) (end_addr region)) (end_addr region)).
       isSymbolic e (skipUnmapped e (start region) (end_addr region) + of_nat j) 1 \<longrightarrow>
       regionHaystack e (skipUnmapped e (start region) (end_addr region)) (end_addr region) ! j = 0"
      by (auto simp: regionHaystack_def)
  qed
qed

text \<open>
  On \<open>ex_mem\<close> the symbolic middle byte reads as 0x00, and a needle starting with 0x00 is
  found at its address.
\<close>

theorem readConcrete_zero_fills_symbolic_witness:
  "isSymbolic ex_mem (0x1000 + of_nat 1) 1 \<and>
   fst (readConcrete ex_mem 0x1000 3 False) = [0x41, 0, 0x43] \<and>
   regionHaystack ex_mem 0x1000 0x1003 = [0x41, 0, 0x43] \<and>
   searchRegion ex_mem kmp_naive [0, 0x43] ex_region = [0x1001]"
proof -
  have nf: "\<not> (\<exists>j < unat (3::u64). faultAt ex_mem 0x1000 j)"
    by (simp add: ex_less_3 faultAt_def ex_mem_def isSymbolic_def)
  have sk: "skipUnmapped ex_mem (start ex_region) (end_addr ex_region) = 0x1000"
    by (simp add: skipUnmapped_mapped isMapped_def ex_mem_def ex_region_def)
  have v0: "fst (readConcrete ex_mem 0x1000 3 False) = [0x41, 0, 0x43]" by code_simp
  have v1: "regionHaystack ex_mem 0x1000 0x1003 = [0x41, 0, 0x43]" by code_simp
  have v2: "kmp_naive [0x41, 0, 0x43] [0, 0x43] = [1]" by code_simp
  from readConcrete_zero_fills_symbolic [where e = ex_mem and virtAddr = "0x1000" and sz = 3 and region = ex_region
              and kmp = kmp_naive and needle = "[0, 0x43]"] nf sk v0 v1 v2
  show ?thesis
    by (simp add: Let_def ex_region_def ex_mem_def isSymbolic_def)
qed


section \<open>Properties of search\<close>

lemma word_less_unat_Suc:
  fixes s :: u64
  assumes "s < en"
  shows "unat (s + 1) = Suc (unat s)"
proof -
  from assms have "s + 1 \<noteq> 0" using eq_neg_iff_add_eq_0 by force
  then have "1 + s \<noteq> 0" by (simp add: add.commute)
  then have "unat (1 + s) = Suc (unat s)" by (rule unatSuc)
  then show ?thesis by (simp add: add.commute)
qed

lemma skipUnmapped_ge: "s \<le> skipUnmapped e s en"
proof (induction e s en rule: skipUnmapped.induct)
  case (1 e s en)
  show ?case
  proof (cases "\<not> isMapped e s \<and> s < en")
    case True
    then have "s < en" by simp
    then have "unat (s + 1) = Suc (unat s)" by (rule word_less_unat_Suc)
    then have "s \<le> s + 1" by (simp add: word_le_nat_alt)
    also from "1.IH" True have "s + 1 \<le> skipUnmapped e (s + 1) en" by simp
    also from True have "skipUnmapped e (s + 1) en = skipUnmapped e s en"
      by (subst (2) skipUnmapped.simps) simp
    finally show ?thesis .
  next
    case False
    then show ?thesis by (subst skipUnmapped.simps) auto
  qed
qed

lemma readConcrete_length_le: "length (fst (readConcrete e a sz False)) \<le> unat sz"
proof (cases "\<exists>j < unat sz. faultAt e a j")
  case True
  then obtain j where "j < unat sz" "faultAt e a j" by blast
  from readConcrete_loop_fault [OF _ this, of 0 "replicate (unat sz) 0"]
  show ?thesis by (auto simp: readConcrete_def)
next
  case False
  from readConcrete_no_fault [OF False] show ?thesis by auto
qed

lemma regionHolds_haystack:
  assumes "regionHolds e region bs"
  shows "regionHaystack e (start region) (end_addr region) = bs"
proof -
  let ?sz = "end_addr region - start region"
  from assms have len: "length bs = unat ?sz" by (simp add: regionHolds_def)
  from assms have rd: "\<forall>i < unat ?sz. \<not> isSymbolic e (start region + of_nat i) 1 \<and>
         mem_read1 e (start region + of_nat i) = Some (bs ! i)"
    by (simp add: regionHolds_def)
  then have nf: "\<not> (\<exists>j < unat ?sz. faultAt e (start region) j)"
    by (auto simp: faultAt_def)
  from readConcrete_no_fault [OF nf] obtain ret where
    r: "readConcrete e (start region) ?sz False = (ret, [])" "length ret = unat ?sz"
       "\<forall>j < unat ?sz. ret ! j =
              (if isSymbolic e (start region + of_nat j) 1 then 0
               else the (mem_read1 e (start region + of_nat j)))" by blast
  have "ret = bs"
  proof (rule nth_equalityI)
    show "length ret = length bs" using r(2) len by simp
  next
    fix i assume "i < length ret"
    with r(2) have i: "i < unat ?sz" by simp
    with r(3) rd show "ret ! i = bs ! i" by simp
  qed
  with r(1) show ?thesis by (simp add: regionHaystack_def)
qed

lemma regionHolds_skip:
  assumes "regionHolds e region bs"
  shows "skipUnmapped e (start region) (end_addr region) = start region"
proof -
  from assms have "start region < end_addr region" by (simp add: regionHolds_def)
  then have "end_addr region - start region \<noteq> 0" by simp
  then have "0 < unat (end_addr region - start region)" by (simp add: unat_gt_0)
  with assms have "isMapped e (start region + of_nat 0)"
    unfolding regionHolds_def by metis
  then show ?thesis by (simp add: skipUnmapped_mapped)
qed

lemma searchRegion_holds:
  assumes "regionHolds e region bs"
  shows "searchRegion e kmp needle region = map (\<lambda>r. r + start region) (kmp bs needle)"
proof -
  from assms have "start region < end_addr region" by (simp add: regionHolds_def)
  then show ?thesis
    by (simp add: searchRegion_def Let_def regionHolds_skip [OF assms]
        regionHolds_haystack [OF assms] not_le [symmetric])
qed

lemma searchRegion_within:
  assumes "kmp_spec kmp" "a \<in> set (searchRegion e kmp needle r)"
  shows "\<exists>s k. start r \<le> s \<and> s < end_addr r \<and> a = s + of_nat k \<and>
           k + length needle \<le> unat (end_addr r - s)"
proof -
  let ?s = "skipUnmapped e (start r) (end_addr r)"
  let ?h = "regionHaystack e ?s (end_addr r)"
  from assms(2) have lt: "?s < end_addr r"
    by (auto simp: searchRegion_def Let_def split: if_splits)
  with assms(2) have "a \<in> (\<lambda>x. x + ?s) ` set (kmp ?h needle)"
    by (simp add: searchRegion_def Let_def not_le [symmetric])
  with assms(1) obtain k where k: "occursAt needle ?h k" "a = of_nat k + ?s"
    by (auto simp: kmp_spec_def)
  have "length ?h \<le> unat (end_addr r - ?s)"
    by (simp add: regionHaystack_def readConcrete_length_le)
  with k(1) have "k + length needle \<le> unat (end_addr r - ?s)"
    by (simp add: occursAt_def)
  with skipUnmapped_ge [of "start r" e "end_addr r"] lt k(2) show ?thesis
    by (intro exI [of _ ?s] exI [of _ k]) (simp add: add.commute)
qed

lemma kmp_naive_spec: "kmp_spec kmp_naive"
proof -
  have "set (filter (occursAt needle haystack) [0..<Suc (length haystack)]) =
          {k. occursAt needle haystack k}" for haystack needle :: "u8 list"
  proof -
    have "occursAt needle haystack k \<Longrightarrow> k < Suc (length haystack)" for k
      by (simp add: occursAt_def)
    then show ?thesis
      unfolding set_filter set_upt by auto
  qed
  then show ?thesis
    unfolding kmp_spec_def kmp_naive_def set_map by blast
qed

text \<open>
  C6. Let \<open>kmp\<close> return exactly the offsets at which the needle occurs in the haystack. For
  every needle and every region of the map whose bytes are all accessible and concrete with
  content \<open>bs\<close>: when the needle occurs in \<open>bs\<close> at offset \<open>k\<close>, the result of \<open>search\<close>
  contains \<open>region.start + k\<close>; when the needle does not occur in \<open>bs\<close>, the region adds
  nothing to the result. Every address \<open>search\<close> returns is a match that lies inside one
  region of the map, from its (adjusted) start to its end: a match that spans two regions
  is not found.
\<close>

theorem search_finds_region_matches:
  assumes "kmp_spec kmp" and "getMapInfo e = Some regions"
    and "region \<in> set regions" and "regionHolds e region bs"
  shows "(occursAt needle bs k \<longrightarrow>
            (\<exists>res. search e kmp needle = Some res \<and> start region + of_nat k \<in> set res)) \<and>
         ((\<forall>k. \<not> occursAt needle bs k) \<longrightarrow> searchRegion e kmp needle region = []) \<and>
         (\<forall>res a. search e kmp needle = Some res \<and> a \<in> set res \<longrightarrow>
            (\<exists>r \<in> set regions. \<exists>s k. start r \<le> s \<and> s < end_addr r \<and> a = s + of_nat k \<and>
               k + length needle \<le> unat (end_addr r - s)))"
proof (intro conjI impI allI)
  assume occ: "occursAt needle bs k"
  with assms(1) have "of_nat k \<in> set (kmp bs needle)" by (auto simp: kmp_spec_def)
  then have "of_nat k + start region \<in> set (searchRegion e kmp needle region)"
    by (simp add: searchRegion_holds [OF assms(4)])
  with assms(3) have "start region + of_nat k \<in> set (concat (map (searchRegion e kmp needle) regions))"
    by (auto simp: add.commute)
  with assms(2) show "\<exists>res. search e kmp needle = Some res \<and> start region + of_nat k \<in> set res"
    by (simp add: search_def)
next
  assume "\<forall>k. \<not> occursAt needle bs k"
  with assms(1) have "set (kmp bs needle) = {}" by (simp add: kmp_spec_def)
  then show "searchRegion e kmp needle region = []"
    by (simp add: searchRegion_holds [OF assms(4)])
next
  fix res a
  assume "search e kmp needle = Some res \<and> a \<in> set res"
  with assms(2) obtain r where r: "r \<in> set regions" "a \<in> set (searchRegion e kmp needle r)"
    by (auto simp: search_def)
  from searchRegion_within [OF assms(1) r(2)] r(1)
  show "\<exists>r \<in> set regions. \<exists>s k. start r \<le> s \<and> s < end_addr r \<and> a = s + of_nat k \<and>
               k + length needle \<le> unat (end_addr r - s)" by blast
qed



lemma all_less_2: "(\<forall>j<Suc (Suc 0). P j) = (P 0 \<and> P (Suc 0))"
  by (auto simp: less_Suc_eq)

lemma ex_two_stack: "stackRegion ex_two = Some \<lparr> start = 0x7000, end_addr = 0x7000, prot = 3 \<rparr>"
  by (simp add: stackRegion_def probeDown.simps probeUp.simps isMapped_def ex_two_def)

lemma ex_two_map: "getMapInfo ex_two = Some [\<lparr> start = 0x1000, end_addr = 0x1002, prot = 1 \<rparr>,
                       \<lparr> start = 0x1002, end_addr = 0x1004, prot = 1 \<rparr>,
                       \<lparr> start = 0x7000, end_addr = 0x7000, prot = 3 \<rparr>]"
  by (simp add: getMapInfo_def ex_two_stack) (simp add: ex_two_def)

text \<open>
  On \<open>ex_two\<close>: the byte \<open>42\<close> is found at \<open>0x1001\<close> in the first region, \<open>43\<close> does not occur
  in that region, and \<open>42 43\<close>, which lies across the two regions, is not found.
\<close>

theorem search_finds_region_matches_witness:
  "kmp_spec kmp_naive \<and>
   regionHolds ex_two \<lparr> start = 0x1000, end_addr = 0x1002, prot = 1 \<rparr> [0x41, 0x42] \<and>
   occursAt [0x42] [0x41, 0x42] 1 \<and>
   search ex_two kmp_naive [0x42] = Some [0x1001] \<and>
   (\<forall>k. \<not> occursAt [0x43] [0x41, 0x42] k) \<and>
   searchRegion ex_two kmp_naive [0x43] \<lparr> start = 0x1000, end_addr = 0x1002, prot = 1 \<rparr> = [] \<and>
   search ex_two kmp_naive [0x42, 0x43] = Some []"
proof -
  let ?r = "\<lparr> start = 0x1000, end_addr = 0x1002, prot = 1 \<rparr> :: MemoryRegion"
  have h: "regionHolds ex_two ?r [0x41, 0x42]"
    by (simp add: regionHolds_def all_less_2 isMapped_def isSymbolic_def ex_two_def)
  have o: "occursAt [0x42] [0x41, 0x42] 1"
    by (simp add: occursAt_def)
  have n: "\<forall>k. \<not> occursAt [0x43] [0x41, 0x42] k"
  proof
    fix k :: nat
    have "k = 0 \<or> k = 1 \<or> 2 \<le> k" by arith
    then show "\<not> occursAt [0x43] [0x41, 0x42] k"
      by (auto simp: occursAt_def)
  qed
  have s1: "concat (map (searchRegion ex_two kmp_naive [0x42])
              [\<lparr> start = 0x1000, end_addr = 0x1002, prot = 1 \<rparr>,
               \<lparr> start = 0x1002, end_addr = 0x1004, prot = 1 \<rparr>,
               \<lparr> start = 0x7000, end_addr = 0x7000, prot = 3 \<rparr>]) = [0x1001]"
    by code_simp
  have s2: "concat (map (searchRegion ex_two kmp_naive [0x42, 0x43])
              [\<lparr> start = 0x1000, end_addr = 0x1002, prot = 1 \<rparr>,
               \<lparr> start = 0x1002, end_addr = 0x1004, prot = 1 \<rparr>,
               \<lparr> start = 0x7000, end_addr = 0x7000, prot = 3 \<rparr>]) = []"
    by code_simp
  from search_finds_region_matches [OF kmp_naive_spec ex_two_map _ h, of "[0x42]" 1]
       search_finds_region_matches [OF kmp_naive_spec ex_two_map _ h, of "[0x43]" 0]
       kmp_naive_spec h o n s1 s2
  show ?thesis
    by (simp add: search_def ex_two_map)
qed


section \<open>Properties of getMapInfo\<close>

lemma set_insert_subset: "set (set_insert r xs) \<subseteq> insert r (set xs)"
  by (induction xs) auto

lemma set_insert_sorted:
  "sorted_wrt (\<lambda>a b. start a < start b) xs \<Longrightarrow>
   sorted_wrt (\<lambda>a b. start a < start b) (set_insert r xs)"
proof (induction xs)
  case Nil
  then show ?case by simp
next
  case (Cons x xs)
  have sub: "set (set_insert r xs) \<subseteq> insert r (set xs)" by (rule set_insert_subset)
  show ?case
  proof (cases "start r < start x")
    case True
    with Cons.prems show ?thesis by (auto intro: less_trans)
  next
    case False
    show ?thesis
    proof (cases "start x < start r")
      case True
      with False Cons sub show ?thesis by auto
    next
      case False
      with \<open>\<not> start r < start x\<close> Cons.prems show ?thesis by simp
    qed
  qed
qed

lemma foldl_set_insert:
  "sorted_wrt (\<lambda>a b. start a < start b) acc \<Longrightarrow>
   sorted_wrt (\<lambda>a b. start a < start b) (foldl (\<lambda>ret r. set_insert r ret) acc rs) \<and>
   set (foldl (\<lambda>ret r. set_insert r ret) acc rs) \<subseteq> set acc \<union> set rs"
proof (induction rs arbitrary: acc)
  case Nil
  then show ?case by simp
next
  case (Cons r rs)
  from Cons.prems have "sorted_wrt (\<lambda>a b. start a < start b) (set_insert r acc)"
    by (rule set_insert_sorted)
  from Cons.IH [OF this] set_insert_subset [of r acc] show ?case by auto
qed

lemma pageAligned_mask: "TARGET_PAGE_SIZE e = 2 ^ k \<Longrightarrow> pageAligned e a = (a AND mask k = 0)"
  by (simp add: pageAligned_def mask_eq_decr_exp)

lemma pageAligned_rsp: "pageAligned e (rsp AND NOT (TARGET_PAGE_SIZE e - 1))"
  by (simp add: pageAligned_def and.assoc)

lemma aligned_add: "(a::u64) AND mask k = 0 \<Longrightarrow> (a + 2 ^ k) AND mask k = 0"
  by (metis (no_types, lifting) add.commute add_cancel_right_left
    mask_eqs(1) mod_word_self word_greater_zero_iff word_mod_2p_is_mask)

lemma aligned_sub: "(a::u64) AND mask k = 0 \<Longrightarrow> (a - 2 ^ k) AND mask k = 0"
  by (metis bit.conj_cancel_left diff_0 mask_eqs(3) minus_exp_eq_not_mask)

lemma probeDown_aligned:
  assumes "probeDown e x = Some y"
  shows "TARGET_PAGE_SIZE e = 2 ^ k \<longrightarrow> pageAligned e x \<longrightarrow> pageAligned e y"
proof (rule probeDown.raw_induct [where P = "\<lambda>e x y. TARGET_PAGE_SIZE e = 2 ^ k \<longrightarrow>
          pageAligned e x \<longrightarrow> pageAligned e y", OF _ assms])
  fix pd :: "engine \<Rightarrow> u64 \<Rightarrow> u64 option" and e x y
  assume IH: "\<And>e b y. pd e b = Some y \<Longrightarrow>
                TARGET_PAGE_SIZE e = 2 ^ k \<longrightarrow> pageAligned e b \<longrightarrow> pageAligned e y"
    and eq: "(if isMapped e x then pd e (x - TARGET_PAGE_SIZE e) else Some x) = Some y"
  show "TARGET_PAGE_SIZE e = 2 ^ k \<longrightarrow> pageAligned e x \<longrightarrow> pageAligned e y"
  proof (cases "isMapped e x")
    case True
    with eq have "pd e (x - TARGET_PAGE_SIZE e) = Some y" by simp
    from IH [OF this] show ?thesis
      by (auto simp: pageAligned_mask aligned_sub)
  next
    case False
    with eq show ?thesis by auto
  qed
qed

lemma probeUp_aligned:
  assumes "probeUp e x = Some y"
  shows "TARGET_PAGE_SIZE e = 2 ^ k \<longrightarrow> pageAligned e x \<longrightarrow> pageAligned e y"
proof (rule probeUp.raw_induct [where P = "\<lambda>e x y. TARGET_PAGE_SIZE e = 2 ^ k \<longrightarrow>
          pageAligned e x \<longrightarrow> pageAligned e y", OF _ assms])
  fix pd :: "engine \<Rightarrow> u64 \<Rightarrow> u64 option" and e x y
  assume IH: "\<And>e b y. pd e b = Some y \<Longrightarrow>
                TARGET_PAGE_SIZE e = 2 ^ k \<longrightarrow> pageAligned e b \<longrightarrow> pageAligned e y"
    and eq: "(if isMapped e x then pd e (x + TARGET_PAGE_SIZE e) else Some x) = Some y"
  show "TARGET_PAGE_SIZE e = 2 ^ k \<longrightarrow> pageAligned e x \<longrightarrow> pageAligned e y"
  proof (cases "isMapped e x")
    case True
    with eq have "pd e (x + TARGET_PAGE_SIZE e) = Some y" by simp
    from IH [OF this] show ?thesis
      by (auto simp: pageAligned_mask aligned_add)
  next
    case False
    with eq show ?thesis by auto
  qed
qed

lemma stackRegion_aligned:
  assumes "TARGET_PAGE_SIZE e = 2 ^ k" "stackRegion e = Some s"
  shows "pageAligned e (start s) \<and> pageAligned e (end_addr s)"
proof -
  let ?p = "reg_rsp e AND NOT (TARGET_PAGE_SIZE e - 1)"
  from assms(2) obtain b t where bt: "probeDown e ?p = Some b" "probeUp e ?p = Some t"
    "s = \<lparr> start = b + TARGET_PAGE_SIZE e, end_addr = t - TARGET_PAGE_SIZE e,
           prot = MM_READ e OR MM_WRITE e \<rparr>"
    by (auto simp: stackRegion_def Let_def split: option.splits)
  from probeDown_aligned [OF bt(1), of k] assms(1) pageAligned_rsp [of e "reg_rsp e"]
  have "pageAligned e b" by simp
  moreover from probeUp_aligned [OF bt(2), of k] assms(1) pageAligned_rsp [of e "reg_rsp e"]
  have "pageAligned e t" by simp
  ultimately show ?thesis using assms(1) bt(3)
    by (simp add: pageAligned_mask aligned_add aligned_sub)
qed

lemma probeDown_returns:
  "\<not> isMapped e (x - of_nat n * TARGET_PAGE_SIZE e) \<Longrightarrow> \<exists>y. probeDown e x = Some y"
proof (induction n arbitrary: x)
  case 0
  then show ?case by (subst probeDown.simps) simp
next
  case (Suc n)
  have "x - TARGET_PAGE_SIZE e - of_nat n * TARGET_PAGE_SIZE e = x - of_nat (Suc n) * TARGET_PAGE_SIZE e"
    by (simp add: algebra_simps)
  then have "\<not> isMapped e (x - TARGET_PAGE_SIZE e - of_nat n * TARGET_PAGE_SIZE e)"
    using Suc.prems by metis
  from Suc.IH [OF this] show ?case by (subst probeDown.simps) simp
qed

lemma probeUp_returns:
  "\<not> isMapped e (x + of_nat n * TARGET_PAGE_SIZE e) \<Longrightarrow> \<exists>y. probeUp e x = Some y"
proof (induction n arbitrary: x)
  case 0
  then show ?case by (subst probeUp.simps) simp
next
  case (Suc n)
  have "x + TARGET_PAGE_SIZE e + of_nat n * TARGET_PAGE_SIZE e = x + of_nat (Suc n) * TARGET_PAGE_SIZE e"
    by (simp add: algebra_simps)
  then have "\<not> isMapped e (x + TARGET_PAGE_SIZE e + of_nat n * TARGET_PAGE_SIZE e)"
    using Suc.prems by metis
  from Suc.IH [OF this] show ?case by (subst probeUp.simps) simp
qed

text \<open>
  \<open>getMapInfo\<close> returns as soon as some page below and some page above the stack pointer's
  page are unmapped.
\<close>

lemma getMapInfo_returns:
  assumes "\<not> isMapped e ((reg_rsp e AND NOT (TARGET_PAGE_SIZE e - 1)) - of_nat m * TARGET_PAGE_SIZE e)"
    and "\<not> isMapped e ((reg_rsp e AND NOT (TARGET_PAGE_SIZE e - 1)) + of_nat n * TARGET_PAGE_SIZE e)"
  shows "\<exists>rs. getMapInfo e = Some rs"
proof -
  from probeDown_returns [OF assms(1)] probeUp_returns [OF assms(2)]
  show ?thesis by (auto simp: getMapInfo_def stackRegion_def Let_def)
qed

text \<open>
  C5, as amended. Every region set that \<open>getMapInfo\<close> returns consists of regions reported
  by the engine and the synthesized stack region, sorted by start address with no two
  regions starting at the same address; the start of the stack region is page-aligned (for
  a page size that is a power of two); and the set contains no two overlapping regions
  whenever the engine's regions and the stack region do not overlap one another. Nothing
  is said on the order of the stack region's start and end.
\<close>

theorem getMapInfo_regions:
  assumes "TARGET_PAGE_SIZE e = 2 ^ k" and "getMapInfo e = Some rs"
  shows "\<exists>stack. stackRegion e = Some stack \<and> pageAligned e (start stack) \<and>
           set rs \<subseteq> insert stack (set (iterateRegions e)) \<and>
           sorted_wrt (\<lambda>a b. start a < start b) rs \<and>
           ((\<forall>r1 \<in> insert stack (set (iterateRegions e)).
               \<forall>r2 \<in> insert stack (set (iterateRegions e)). r1 \<noteq> r2 \<longrightarrow> \<not> overlap r1 r2) \<longrightarrow>
            (\<forall>r1 \<in> set rs. \<forall>r2 \<in> set rs. r1 \<noteq> r2 \<longrightarrow> \<not> overlap r1 r2))"
proof -
  let ?ret = "foldl (\<lambda>ret r. set_insert r ret) [] (iterateRegions e)"
  from assms(2) obtain stack where st: "stackRegion e = Some stack" "rs = set_insert stack ?ret"
    by (auto simp: getMapInfo_def Let_def split: option.splits)
  from foldl_set_insert [of "[]" "iterateRegions e"]
  have f: "sorted_wrt (\<lambda>a b. start a < start b) ?ret" "set ?ret \<subseteq> set (iterateRegions e)"
    by simp_all
  from f(2) set_insert_subset [of stack ?ret] st(2)
  have sub: "set rs \<subseteq> insert stack (set (iterateRegions e))" by auto
  have srt: "sorted_wrt (\<lambda>a b. start a < start b) rs"
    using f(1) st(2) by (simp add: set_insert_sorted)
  from stackRegion_aligned [OF assms(1) st(1)] have al: "pageAligned e (start stack)" by simp
  from sub have "(\<forall>r1 \<in> insert stack (set (iterateRegions e)).
               \<forall>r2 \<in> insert stack (set (iterateRegions e)). r1 \<noteq> r2 \<longrightarrow> \<not> overlap r1 r2) \<longrightarrow>
            (\<forall>r1 \<in> set rs. \<forall>r2 \<in> set rs. r1 \<noteq> r2 \<longrightarrow> \<not> overlap r1 r2)"
    by blast
  with st(1) al sub srt show ?thesis by blast
qed

lemma ex_adjacent_stack:
  "stackRegion ex_adjacent = Some \<lparr> start = 0x4000, end_addr = 0x8000, prot = 3 \<rparr>"
  by (simp add: stackRegion_def probeDown.simps probeUp.simps isMapped_def ex_adjacent_def)

text \<open>
  C5 as stated fails. With a single mapped page around the stack pointer (\<open>ex_two\<close>) the
  stack region starts and ends at \<open>0x7000\<close>: both loops stop one page away and the
  correction of \<open>stackEnd\<close> by one page brings it back to the start. With stack pages that
  touch a reported region (\<open>ex_adjacent\<close>) the upward probe runs on into that region and
  the stack region \<open>[0x4000, 0x8000)\<close> overlaps the reported \<open>[0x6000, 0x9000)\<close>.
\<close>

theorem getMapInfo_counterexample:
  "getMapInfo ex_two = Some [\<lparr> start = 0x1000, end_addr = 0x1002, prot = 1 \<rparr>,
                            \<lparr> start = 0x1002, end_addr = 0x1004, prot = 1 \<rparr>,
                            \<lparr> start = 0x7000, end_addr = 0x7000, prot = 3 \<rparr>] \<and>
   stackRegion ex_two = Some \<lparr> start = 0x7000, end_addr = 0x7000, prot = 3 \<rparr> \<and>
   \<not> start \<lparr> start = 0x7000, end_addr = 0x7000, prot = 3 :: u8 \<rparr>
       < end_addr \<lparr> start = 0x7000, end_addr = 0x7000, prot = 3 :: u8 \<rparr> \<and>
   getMapInfo ex_adjacent = Some [\<lparr> start = 0x4000, end_addr = 0x8000, prot = 3 \<rparr>,
                                 \<lparr> start = 0x6000, end_addr = 0x9000, prot = 1 \<rparr>] \<and>
   overlap \<lparr> start = 0x4000, end_addr = 0x8000, prot = 3 \<rparr>
           \<lparr> start = 0x6000, end_addr = 0x9000, prot = 1 \<rparr>"
proof -
  have "getMapInfo ex_adjacent = Some [\<lparr> start = 0x4000, end_addr = 0x8000, prot = 3 \<rparr>,
                                 \<lparr> start = 0x6000, end_addr = 0x9000, prot = 1 \<rparr>]"
    by (simp add: getMapInfo_def ex_adjacent_stack) (simp add: ex_adjacent_def)
  then show ?thesis
    by (simp add: ex_two_map ex_two_stack overlap_def)
qed

theorem getMapInfo_regions_witness:
  "TARGET_PAGE_SIZE ex_adjacent = 2 ^ 12 \<and>
   getMapInfo ex_adjacent = Some [\<lparr> start = 0x4000, end_addr = 0x8000, prot = 3 \<rparr>,
                                 \<lparr> start = 0x6000, end_addr = 0x9000, prot = 1 \<rparr>] \<and>
   pageAligned ex_adjacent 0x4000"
proof -
  have ps: "TARGET_PAGE_SIZE ex_adjacent = 2 ^ 12" by (simp add: ex_adjacent_def)
  have g: "getMapInfo ex_adjacent = Some [\<lparr> start = 0x4000, end_addr = 0x8000, prot = 3 \<rparr>,
                                 \<lparr> start = 0x6000, end_addr = 0x9000, prot = 1 \<rparr>]"
    by (simp add: getMapInfo_def ex_adjacent_stack) (simp add: ex_adjacent_def)
  from getMapInfo_regions [OF ps g] ps g show ?thesis
    by (simp add: ex_adjacent_stack)
qed


section \<open>Properties of the constraint queue\<close>

lemma applied_append: "applied (a @ b) = applied a @ applied b"
  by (induction a rule: applied.induct) auto

lemma injected_append: "injected (a @ b) = injected a @ injected b"
  by (induction a rule: injected.induct) auto

lemma foldl_addConstraint:
  "foldl (\<lambda>x c. addConstraint c x) x G =
     x\<lparr> m_currentConstraintGroup := m_currentConstraintGroup x @ G \<rparr>"
  by (induction G arbitrary: x) (auto simp: addConstraint_def)

lemma commitGroup_eq:
  assumes "moduleStates x (currentState x) = Some modState"
  shows "commitGroup G x =
     Inr (x\<lparr> moduleStates := (moduleStates x)(currentState x \<mapsto>
                 modState\<lparr> constraintsQueue :=
                   constraintsQueue modState @ [m_currentConstraintGroup x @ G] \<rparr>),
             m_currentConstraintGroup := [] \<rparr>)"
  using assms by (simp add: commitGroup_def commitConstraints_def foldl_addConstraint)

lemma applyConstraint_ok:
  assumes "constantRegister c"
  shows "\<exists>x' evs. applyConstraint env sid c x = Inr x' \<and>
     events x' = events x @ evs \<and> applied evs = [c] \<and> injected evs = [constraintTarget c] \<and>
     currentState x' = currentState x \<and> moduleStates x' = moduleStates x \<and>
     m_currentConstraintGroup x' = m_currentConstraintGroup x \<and> warnings x' = warnings x"
  using assms
  by (induction c rule: constantRegister.induct) (auto simp: Let_def terminateState_def)

lemma applyConstraint_Inr:
  assumes "applyConstraint env sid c x = Inr x'"
  shows "constantRegister c"
  using assms by (induction c rule: constantRegister.induct) auto

lemma applyConstraints_ok:
  assumes "list_all constantRegister G"
  shows "\<exists>h x' evs. applyConstraints env sid G h0 x = Inr (h, x') \<and>
     events x' = events x @ evs \<and> applied evs = G \<and> injected evs = map constraintTarget G \<and>
     currentState x' = currentState x \<and> moduleStates x' = moduleStates x \<and>
     m_currentConstraintGroup x' = m_currentConstraintGroup x \<and> warnings x' = warnings x"
  using assms
proof (induction G arbitrary: h0 x)
  case Nil
  then show ?case by simp
next
  case (Cons c G)
  from Cons.prems have c: "constantRegister c" and G: "list_all constantRegister G" by simp_all
  from applyConstraint_ok [OF c, of env sid x] obtain x1 evs1 where
    1: "applyConstraint env sid c x = Inr x1" "events x1 = events x @ evs1"
       "applied evs1 = [c]" "injected evs1 = [constraintTarget c]"
       "currentState x1 = currentState x" "moduleStates x1 = moduleStates x"
       "m_currentConstraintGroup x1 = m_currentConstraintGroup x" "warnings x1 = warnings x"
    by blast
  from Cons.IH [OF G, of "h0 \<or> isRipConstraint c" x1] obtain h x' evs where
    2: "applyConstraints env sid G (h0 \<or> isRipConstraint c) x1 = Inr (h, x')"
       "events x' = events x1 @ evs" "applied evs = G" "injected evs = map constraintTarget G"
       "currentState x' = currentState x1" "moduleStates x' = moduleStates x1"
       "m_currentConstraintGroup x' = m_currentConstraintGroup x1" "warnings x' = warnings x1"
    by blast
  have "applyConstraints env sid (c # G) h0 x = Inr (h, x')" using 1(1) 2(1) by simp
  moreover have "events x' = events x @ (evs1 @ evs)" using 1(2) 2(2) by simp
  moreover have "applied (evs1 @ evs) = c # G" using 1(3) 2(3) by (simp add: applied_append)
  moreover have "injected (evs1 @ evs) = map constraintTarget (c # G)"
    using 1(4) 2(4) by (simp add: injected_append)
  ultimately show ?case using 1(5-8) 2(5-8) by (metis (no_types, lifting))
qed

lemma applyNext_ok:
  assumes "moduleStates x sid = Some modState" "constraintsQueue modState = G # rest"
    "list_all constantRegister G"
  shows "\<exists>x' evs. stateAfter (applyNextConstraintGroup env sid x) = Some x' \<and>
     events x' = events x @ evs \<and> applied evs = G \<and> injected evs = map constraintTarget G \<and>
     currentState x' = currentState x \<and>
     moduleStates x' = (moduleStates x)(sid \<mapsto> modState\<lparr> constraintsQueue := rest \<rparr>) \<and>
     m_currentConstraintGroup x' = m_currentConstraintGroup x"
proof -
  let ?x0 = "x\<lparr> warnings := warnings x @ [AddingConstraints] \<rparr>"
  from applyConstraints_ok [OF assms(3), of env sid False ?x0] obtain h x1 evs where
    1: "applyConstraints env sid G False ?x0 = Inr (h, x1)"
       "events x1 = events ?x0 @ evs" "applied evs = G" "injected evs = map constraintTarget G"
       "currentState x1 = currentState ?x0" "moduleStates x1 = moduleStates ?x0"
       "m_currentConstraintGroup x1 = m_currentConstraintGroup ?x0"
    by blast
  let ?x2 = "x1\<lparr> moduleStates := (moduleStates x1)(sid \<mapsto> modState\<lparr> constraintsQueue := rest \<rparr>) \<rparr>"
  have "stateAfter (applyNextConstraintGroup env sid x) = Some ?x2"
    using assms(1,2) 1(1) by (simp add: applyNextConstraintGroup_def Let_def)
  with 1 show ?thesis by (intro exI [of _ ?x2] exI [of _ evs]) simp
qed

lemma applyNext_empty:
  assumes "moduleStates x sid = Some modState" "constraintsQueue modState = []"
  shows "applyNextConstraintGroup env sid x = Inr (x\<lparr> warnings := warnings x @ [NoMoreConstraints] \<rparr>)"
  using assms by (simp add: applyNextConstraintGroup_def)

text \<open>
  C1. The queue of a state is strict FIFO. Starting from an empty queue and no group under
  construction, after \<open>commitConstraints\<close> for \<open>G1\<close> and then for \<open>G2\<close> on the same state,
  the first invocation of \<open>applyNextConstraintGroup\<close> appends to the trace the injections
  and symbolic writes of exactly the constraints of \<open>G1\<close>, in order, and the second those
  of \<open>G2\<close>: every constraint of \<open>G1\<close> is applied before any of \<open>G2\<close>. A further
  invocation, like any invocation on a state whose queue is empty, writes the warning and
  changes nothing else; it returns normally. (The register constraints hold constants, as
  the handler requires.)
\<close>

theorem constraint_queue_fifo:
  assumes "moduleStates x sid = Some modState" and "constraintsQueue modState = []"
    and "currentState x = sid" and "m_currentConstraintGroup x = []"
    and "list_all constantRegister G1" and "list_all constantRegister G2"
  shows "(\<exists>x2 x4 x5 x6 evs1 evs2.
            commitGroup G1 x = Inr x2 \<and> commitGroup G2 x2 = Inr x4 \<and>
            stateAfter (applyNextConstraintGroup env sid x4) = Some x5 \<and>
            events x5 = events x @ evs1 \<and>
            applied evs1 = G1 \<and> injected evs1 = map constraintTarget G1 \<and>
            stateAfter (applyNextConstraintGroup env sid x5) = Some x6 \<and>
            events x6 = events x @ evs1 @ evs2 \<and>
            applied evs2 = G2 \<and> injected evs2 = map constraintTarget G2 \<and>
            applyNextConstraintGroup env sid x6 =
              Inr (x6\<lparr> warnings := warnings x6 @ [NoMoreConstraints] \<rparr>)) \<and>
         applyNextConstraintGroup env sid x =
           Inr (x\<lparr> warnings := warnings x @ [NoMoreConstraints] \<rparr>)"
proof
  let ?m1 = "modState\<lparr> constraintsQueue := [G1] \<rparr>"
  let ?x2 = "x\<lparr> moduleStates := (moduleStates x)(sid \<mapsto> ?m1), m_currentConstraintGroup := [] \<rparr>"
  let ?m2 = "modState\<lparr> constraintsQueue := [G1, G2] \<rparr>"
  let ?x4 = "?x2\<lparr> moduleStates := (moduleStates ?x2)(sid \<mapsto> ?m2), m_currentConstraintGroup := [] \<rparr>"
  have c1: "commitGroup G1 x = Inr ?x2"
    using assms(1-4) by (simp add: commitGroup_eq)
  have c2: "commitGroup G2 ?x2 = Inr ?x4"
    using assms(3) by (simp add: commitGroup_eq [where modState = ?m1])
  have q4: "moduleStates ?x4 sid = Some ?m2" "constraintsQueue ?m2 = G1 # [G2]" by simp_all
  from applyNext_ok [OF q4 assms(5), of env] obtain x5 evs1 where
    5: "stateAfter (applyNextConstraintGroup env sid ?x4) = Some x5"
       "events x5 = events ?x4 @ evs1" "applied evs1 = G1" "injected evs1 = map constraintTarget G1"
       "moduleStates x5 = (moduleStates ?x4)(sid \<mapsto> ?m2\<lparr> constraintsQueue := [G2] \<rparr>)"
    by blast
  have q5: "moduleStates x5 sid = Some (?m2\<lparr> constraintsQueue := [G2] \<rparr>)"
    "constraintsQueue (?m2\<lparr> constraintsQueue := [G2] \<rparr>) = G2 # []"
    using 5(5) by simp_all
  from applyNext_ok [OF q5 assms(6), of env] obtain x6 evs2 where
    6: "stateAfter (applyNextConstraintGroup env sid x5) = Some x6"
       "events x6 = events x5 @ evs2" "applied evs2 = G2" "injected evs2 = map constraintTarget G2"
       "moduleStates x6 = (moduleStates x5)(sid \<mapsto> ?m2\<lparr> constraintsQueue := [G2], constraintsQueue := [] \<rparr>)"
    by blast
  have q6: "moduleStates x6 sid = Some (?m2\<lparr> constraintsQueue := [G2], constraintsQueue := [] \<rparr>)"
    "constraintsQueue (?m2\<lparr> constraintsQueue := [G2], constraintsQueue := [] \<rparr>) = []"
    using 6(5) by simp_all
  have 7: "applyNextConstraintGroup env sid x6 = Inr (x6\<lparr> warnings := warnings x6 @ [NoMoreConstraints] \<rparr>)"
    by (rule applyNext_empty [OF q6])
  have e5: "events x5 = events x @ evs1" using 5(2) by simp
  have e6: "events x6 = events x @ evs1 @ evs2" using 6(2) e5 by simp
  from c1 c2 5(1) e5 5(3,4) 6(1) e6 6(3,4) 7
  show "\<exists>x2 x4 x5 x6 evs1 evs2.
            commitGroup G1 x = Inr x2 \<and> commitGroup G2 x2 = Inr x4 \<and>
            stateAfter (applyNextConstraintGroup env sid x4) = Some x5 \<and>
            events x5 = events x @ evs1 \<and>
            applied evs1 = G1 \<and> injected evs1 = map constraintTarget G1 \<and>
            stateAfter (applyNextConstraintGroup env sid x5) = Some x6 \<and>
            events x6 = events x @ evs1 @ evs2 \<and>
            applied evs2 = G2 \<and> injected evs2 = map constraintTarget G2 \<and>
            applyNextConstraintGroup env sid x6 =
              Inr (x6\<lparr> warnings := warnings x6 @ [NoMoreConstraints] \<rparr>)"
    by blast
next
  show "applyNextConstraintGroup env sid x =
           Inr (x\<lparr> warnings := warnings x @ [NoMoreConstraints] \<rparr>)"
    by (rule applyNext_empty [OF assms(1,2)])
qed


lemma ex_commit1: "commitGroup ex_G1 ex_crax =
    Inr (ex_crax\<lparr> moduleStates := [1 \<mapsto> \<lparr> constraintsQueue = [ex_G1] \<rparr>] \<rparr>)"
  by (simp add: commitGroup_def commitConstraints_def ex_crax_def addConstraint_def ex_G1_def)

lemma ex_commit2: "commitGroup ex_G2 (ex_crax\<lparr> moduleStates := [1 \<mapsto> \<lparr> constraintsQueue = [ex_G1] \<rparr>] \<rparr>) =
    Inr ex_queued"
  by (simp add: commitGroup_def commitConstraints_def ex_crax_def addConstraint_def ex_G2_def ex_queued_def)

lemma ex_apply1: "applyNextConstraintGroup ex_env 1 ex_queued =
    Inr (ex_crax\<lparr> moduleStates := [1 \<mapsto> \<lparr> constraintsQueue = [ex_G2] \<rparr>],
                  events := ex_trace1, warnings := [AddingConstraints] \<rparr>)"
  by (simp add: applyNextConstraintGroup_def ex_queued_def ex_crax_def ex_G1_def ex_env_def
      ex_trace1_def terminateState_def Let_def)

lemma ex_apply2: "applyNextConstraintGroup ex_env 1
      (ex_crax\<lparr> moduleStates := [1 \<mapsto> \<lparr> constraintsQueue = [ex_G2] \<rparr>],
                  events := ex_trace1, warnings := [AddingConstraints] \<rparr>) =
    Inl (CpuExitException, ex_crax\<lparr> moduleStates := [1 \<mapsto> \<lparr> constraintsQueue = [] \<rparr>],
                  events := ex_trace1 @ ex_trace2, warnings := [AddingConstraints, AddingConstraints] \<rparr>)"
  by (simp add: applyNextConstraintGroup_def ex_crax_def ex_G2_def ex_env_def
      ex_trace2_def terminateState_def Let_def)

text \<open>
  On \<open>ex_crax\<close>: the two commits queue \<open>[ex_G1, ex_G2]\<close>; the first trigger leaves
  \<open>ex_trace1\<close> (the value for \<open>RDI\<close> is refused, which the trace shows as the call of
  \<open>terminateState\<close>), the second \<open>ex_trace2\<close> and the exception of the \<open>RIP\<close> constraint.
\<close>

theorem constraint_queue_fifo_witness:
  "list_all constantRegister ex_G1 \<and> list_all constantRegister ex_G2 \<and>
   commitGroup ex_G1 ex_crax =
     Inr (ex_crax\<lparr> moduleStates := [1 \<mapsto> \<lparr> constraintsQueue = [ex_G1] \<rparr>] \<rparr>) \<and>
   commitGroup ex_G2 (ex_crax\<lparr> moduleStates := [1 \<mapsto> \<lparr> constraintsQueue = [ex_G1] \<rparr>] \<rparr>) =
     Inr ex_queued \<and>
   applyNextConstraintGroup ex_env 1 ex_queued =
     Inr (ex_crax\<lparr> moduleStates := [1 \<mapsto> \<lparr> constraintsQueue = [ex_G2] \<rparr>],
                   events := ex_trace1, warnings := [AddingConstraints] \<rparr>) \<and>
   applyNextConstraintGroup ex_env 1
      (ex_crax\<lparr> moduleStates := [1 \<mapsto> \<lparr> constraintsQueue = [ex_G2] \<rparr>],
                  events := ex_trace1, warnings := [AddingConstraints] \<rparr>) =
     Inl (CpuExitException, ex_crax\<lparr> moduleStates := [1 \<mapsto> \<lparr> constraintsQueue = [] \<rparr>],
                  events := ex_trace1 @ ex_trace2,
                  warnings := [AddingConstraints, AddingConstraints] \<rparr>) \<and>
   applied ex_trace1 = ex_G1 \<and> applied ex_trace2 = ex_G2 \<and>
   applyNextConstraintGroup ex_env 1 ex_crax =
     Inr (ex_crax\<lparr> warnings := warnings ex_crax @ [NoMoreConstraints] \<rparr>)"
proof -
  have h1: "moduleStates ex_crax 1 = Some \<lparr> constraintsQueue = [] \<rparr>"
    and h2: "constraintsQueue \<lparr> constraintsQueue = [] \<rparr> = []"
    and h3: "currentState ex_crax = 1"
    and h4: "m_currentConstraintGroup ex_crax = []"
    by (simp_all add: ex_crax_def)
  have h5: "list_all constantRegister ex_G1" by (simp add: ex_G1_def)
  have h6: "list_all constantRegister ex_G2" by (simp add: ex_G2_def)
  have a1: "applied ex_trace1 = ex_G1" by (simp add: ex_trace1_def ex_G1_def)
  have a2: "applied ex_trace2 = ex_G2" by (simp add: ex_trace2_def ex_G2_def)
  from constraint_queue_fifo [OF h1 h2 h3 h4 h5 h6, of ex_env]
  have "applyNextConstraintGroup ex_env 1 ex_crax =
     Inr (ex_crax\<lparr> warnings := warnings ex_crax @ [NoMoreConstraints] \<rparr>)"
    by simp
  with h5 h6 a1 a2 ex_commit1 ex_commit2 ex_apply1 ex_apply2 show ?thesis
    by simp
qed


lemma applyConstraint_Inl:
  assumes "applyConstraint env sid c x = Inl (t, y)"
  shows "t = NullDereference"
  using assms by (induction c rule: constantRegister.induct) (auto simp: Let_def)

lemma applyConstraints_Inl:
  assumes "applyConstraints env sid G h x = Inl (t, y)"
  shows "t = NullDereference"
  using assms
proof (induction G arbitrary: h x)
  case Nil
  then show ?case by simp
next
  case (Cons c G)
  then show ?case
    by (auto split: sum.splits dest: applyConstraint_Inl)
qed

lemma applyConstraints_Inr_constant:
  assumes "applyConstraints env sid G h x = Inr (h', x')"
  shows "list_all constantRegister G"
  using assms
proof (induction G arbitrary: h x)
  case Nil
  then show ?case by simp
next
  case (Cons c G)
  then show ?case
    by (auto split: sum.splits dest: applyConstraint_Inr)
qed

lemma applyConstraints_Inr:
  assumes "applyConstraints env sid G h x = Inr (h', x')"
  shows "\<exists>evs. events x' = events x @ evs \<and> applied evs = G \<and> currentState x' = currentState x"
proof -
  from applyConstraints_ok [OF applyConstraints_Inr_constant [OF assms], of env sid h x] assms
  show ?thesis by auto
qed

lemma applyConstraints_append:
  "applyConstraints env sid (pre @ post) h x =
     (case applyConstraints env sid pre h x of
        Inl t \<Rightarrow> Inl t
      | Inr (h1, x1) \<Rightarrow> applyConstraints env sid post h1 x1)"
  by (induction pre arbitrary: h x) (auto split: sum.splits)

lemma applyConstraints_at:
  assumes "applyConstraints env sid (pre @ RegisterConstraint r (ConstantExpr v w) # post) h x = Inr (h', x')"
  shows "\<exists>evs1 evs2. applied evs1 = pre \<and> applied evs2 = post \<and>
           events x' = events x @ evs1 @
             [AddRegisterConstraint sid r
                (if getUserSpecifiedElfBase env \<noteq> 0 \<and> mapInfo_find env sid v = Some (s_elfLabel env)
                 then ConstantExpr (rebaseAddress env v (getUserSpecifiedElfBase env)) 64
                 else ConstantExpr v w),
              RegWriteSymbolic (currentState x) r (ConstantExpr v w)] @ evs2"
proof -
  let ?k = "RegisterConstraint r (ConstantExpr v w)"
  let ?pair = "[AddRegisterConstraint sid r
                (if getUserSpecifiedElfBase env \<noteq> 0 \<and> mapInfo_find env sid v = Some (s_elfLabel env)
                 then ConstantExpr (rebaseAddress env v (getUserSpecifiedElfBase env)) 64
                 else ConstantExpr v w),
              RegWriteSymbolic (currentState x) r (ConstantExpr v w)]"
  from assms obtain h1 x1 where
    1: "applyConstraints env sid pre h x = Inr (h1, x1)"
       "applyConstraints env sid (?k # post) h1 x1 = Inr (h', x')"
    by (auto simp: applyConstraints_append split: sum.splits)
  from applyConstraints_Inr [OF 1(1)] obtain evs1 where
    e1: "events x1 = events x @ evs1" "applied evs1 = pre" "currentState x1 = currentState x"
    by blast
  from 1(2) obtain x2 where
    2: "applyConstraint env sid ?k x1 = Inr x2"
       "applyConstraints env sid post (h1 \<or> isRipConstraint ?k) x2 = Inr (h', x')"
    by (auto split: sum.splits)
  have "\<exists>tl. events x2 = events x1 @ ?pair @ tl \<and>
          (tl = [] \<or> tl = [TerminateState sid ''Dynamic ROP failed''])"
  proof (cases "addRegisterConstraint env (events x1) sid r
                (if getUserSpecifiedElfBase env \<noteq> 0 \<and> mapInfo_find env sid v = Some (s_elfLabel env)
                 then ConstantExpr (rebaseAddress env v (getUserSpecifiedElfBase env)) 64
                 else ConstantExpr v w)")
    case True
    with 2(1) e1(3) show ?thesis by (auto simp: Let_def)
  next
    case False
    with 2(1) e1(3) show ?thesis by (auto simp: Let_def terminateState_def)
  qed
  then obtain tl where
    e2: "events x2 = events x1 @ ?pair @ tl" "tl = [] \<or> tl = [TerminateState sid ''Dynamic ROP failed'']"
    by blast
  from applyConstraints_Inr [OF 2(2)] obtain evs3 where
    e3: "events x' = events x2 @ evs3" "applied evs3 = post"
    by blast
  from e2(2) e3(2) have "applied (tl @ evs3) = post" by (auto simp: applied_append)
  moreover from e1(1) e2(1) e3(1) have "events x' = events x @ evs1 @ ?pair @ (tl @ evs3)" by simp
  ultimately show ?thesis using e1(2) by blast
qed

text \<open>
  C4. Let the group at the front of the queue hold, at any position, a register constraint
  whose value is a constant \<open>v\<close>, and let the handler get through the group. When a
  user-specified ELF base is configured and \<open>v\<close> lies in the primary ELF image, the
  constraint is injected with the constant \<open>rebaseAddress(v, base)\<close> of width 64, and right
  after it the register is written symbolically with the original expression. When \<open>v\<close>
  lies in another module, or in none, the constraint is injected with the original
  constant: such an address is never rebased.
\<close>

theorem register_constraint_rebased:
  assumes "moduleStates x sid = Some modState"
    and "constraintsQueue modState = (pre @ RegisterConstraint r (ConstantExpr v w) # post) # rest"
    and "stateAfter (applyNextConstraintGroup env sid x) = Some x'"
  shows "(getUserSpecifiedElfBase env \<noteq> 0 \<and> mapInfo_find env sid v = Some (s_elfLabel env) \<longrightarrow>
            (\<exists>evs1 evs2. applied evs1 = pre \<and> applied evs2 = post \<and>
               events x' = events x @ evs1 @
                 [AddRegisterConstraint sid r
                    (ConstantExpr (rebaseAddress env v (getUserSpecifiedElfBase env)) 64),
                  RegWriteSymbolic (currentState x) r (ConstantExpr v w)] @ evs2)) \<and>
         (mapInfo_find env sid v \<noteq> Some (s_elfLabel env) \<longrightarrow>
            (\<exists>evs1 evs2. applied evs1 = pre \<and> applied evs2 = post \<and>
               events x' = events x @ evs1 @
                 [AddRegisterConstraint sid r (ConstantExpr v w),
                  RegWriteSymbolic (currentState x) r (ConstantExpr v w)] @ evs2))"
proof -
  let ?G = "pre @ RegisterConstraint r (ConstantExpr v w) # post"
  let ?x0 = "x\<lparr> warnings := warnings x @ [AddingConstraints] \<rparr>"
  from assms obtain h x1 where
    1: "applyConstraints env sid ?G False ?x0 = Inr (h, x1)" "events x' = events x1"
    by (auto simp: applyNextConstraintGroup_def Let_def
        split: sum.splits if_splits dest: applyConstraints_Inl)
  from applyConstraints_at [OF 1(1)] 1(2) show ?thesis
    by auto
qed

text \<open>
  On the example: \<open>0x401136\<close> in \<open>target\<close> is injected as \<open>0x555555555136\<close> and written
  back as \<open>0x401136\<close>; \<open>0x7f0000001000\<close> in \<open>libc.so.6\<close> is injected as it is
  (\<open>ex_trace1\<close>).
\<close>

theorem register_constraint_rebased_witness:
  "getUserSpecifiedElfBase ex_env \<noteq> 0 \<and>
   mapInfo_find ex_env 1 0x401136 = Some (s_elfLabel ex_env) \<and>
   mapInfo_find ex_env 1 0x7f0000001000 = Some ''libc.so.6'' \<and>
   stateAfter (applyNextConstraintGroup ex_env 1 ex_queued) =
     Some (ex_crax\<lparr> moduleStates := [1 \<mapsto> \<lparr> constraintsQueue = [ex_G2] \<rparr>],
                    events := ex_trace1, warnings := [AddingConstraints] \<rparr>) \<and>
   stateAfter (applyNextConstraintGroup ex_env 1
      (ex_crax\<lparr> moduleStates := [1 \<mapsto> \<lparr> constraintsQueue = [ex_G2] \<rparr>],
                  events := ex_trace1, warnings := [AddingConstraints] \<rparr>)) =
     Some (ex_crax\<lparr> moduleStates := [1 \<mapsto> \<lparr> constraintsQueue = [] \<rparr>],
                  events := ex_trace1 @ ex_trace2,
                  warnings := [AddingConstraints, AddingConstraints] \<rparr>) \<and>
   (\<exists>evs1 evs2. applied evs1 = [] \<and> applied evs2 = [] \<and>
      ex_trace1 @ ex_trace2 = ex_trace1 @ evs1 @
         [AddRegisterConstraint 1 RIP (ConstantExpr 0x555555555136 64),
          RegWriteSymbolic 1 RIP (ConstantExpr 0x401136 64)] @ evs2)"
proof -
  let ?x5 = "ex_crax\<lparr> moduleStates := [1 \<mapsto> \<lparr> constraintsQueue = [ex_G2] \<rparr>],
                  events := ex_trace1, warnings := [AddingConstraints] \<rparr>"
  let ?x6 = "ex_crax\<lparr> moduleStates := [1 \<mapsto> \<lparr> constraintsQueue = [] \<rparr>],
                  events := ex_trace1 @ ex_trace2,
                  warnings := [AddingConstraints, AddingConstraints] \<rparr>"
  have m: "moduleStates ?x5 1 = Some \<lparr> constraintsQueue = [ex_G2] \<rparr>" by simp
  have q: "constraintsQueue \<lparr> constraintsQueue = [ex_G2] \<rparr> =
             ([] @ RegisterConstraint RIP (ConstantExpr 0x401136 64) # []) # []"
    by (simp add: ex_G2_def)
  have s: "stateAfter (applyNextConstraintGroup ex_env 1 ?x5) = Some ?x6"
    unfolding ex_apply2 by simp
  have b: "getUserSpecifiedElfBase ex_env \<noteq> 0 \<and>
           mapInfo_find ex_env 1 0x401136 = Some (s_elfLabel ex_env)"
    by (simp add: ex_env_def)
  have l: "mapInfo_find ex_env 1 0x7f0000001000 = Some ''libc.so.6''"
    by (simp add: ex_env_def)
  from register_constraint_rebased [OF m q s] b
  have "\<exists>evs1 evs2. applied evs1 = [] \<and> applied evs2 = [] \<and>
      ex_trace1 @ ex_trace2 = ex_trace1 @ evs1 @
         [AddRegisterConstraint 1 RIP (ConstantExpr 0x555555555136 64),
          RegWriteSymbolic 1 RIP (ConstantExpr 0x401136 64)] @ evs2"
    by (simp add: ex_env_def ex_crax_def)
  moreover have "stateAfter (applyNextConstraintGroup ex_env 1 ex_queued) = Some ?x5"
    unfolding ex_apply1 by simp
  ultimately show ?thesis using b l s by simp
qed

section \<open>Properties of the symbolic program counter handler\<close>

lemma applyConstraint_trace:
  assumes "constantRegister c"
  shows "\<exists>x' evs. applyConstraint env sid c x = Inr x' \<and> events x' = events x @ evs \<and>
     (\<forall>s. TerminateState s ''End of exploit generation'' \<notin> set evs) \<and>
     currentState x' = currentState x \<and> moduleStates x' = moduleStates x \<and>
     warnings x' = warnings x"
  using assms
  by (induction c rule: constantRegister.induct) (auto simp: Let_def terminateState_def)

lemma applyConstraints_trace:
  assumes "list_all constantRegister G"
  shows "\<exists>x' evs. applyConstraints env sid G h0 x = Inr (h0 \<or> list_ex isRipConstraint G, x') \<and>
     events x' = events x @ evs \<and>
     (\<forall>s. TerminateState s ''End of exploit generation'' \<notin> set evs) \<and>
     currentState x' = currentState x \<and> moduleStates x' = moduleStates x \<and>
     warnings x' = warnings x"
  using assms
proof (induction G arbitrary: h0 x)
  case Nil
  then show ?case by simp
next
  case (Cons c G)
  from Cons.prems have c: "constantRegister c" and G: "list_all constantRegister G" by simp_all
  from applyConstraint_trace [OF c, of env sid x] obtain x1 evs1 where
    1: "applyConstraint env sid c x = Inr x1" "events x1 = events x @ evs1"
       "\<forall>s. TerminateState s ''End of exploit generation'' \<notin> set evs1"
       "currentState x1 = currentState x" "moduleStates x1 = moduleStates x"
       "warnings x1 = warnings x"
    by blast
  from Cons.IH [OF G, of "h0 \<or> isRipConstraint c" x1] obtain x' evs where
    2: "applyConstraints env sid G (h0 \<or> isRipConstraint c) x1 =
          Inr ((h0 \<or> isRipConstraint c) \<or> list_ex isRipConstraint G, x')"
       "events x' = events x1 @ evs"
       "\<forall>s. TerminateState s ''End of exploit generation'' \<notin> set evs"
       "currentState x' = currentState x1" "moduleStates x' = moduleStates x1"
       "warnings x' = warnings x1"
    by blast
  have "applyConstraints env sid (c # G) h0 x = Inr (h0 \<or> list_ex isRipConstraint (c # G), x')"
    using 1(1) 2(1) by simp
  moreover have "events x' = events x @ (evs1 @ evs)" using 1(2) 2(2) by simp
  moreover have "\<forall>s. TerminateState s ''End of exploit generation'' \<notin> set (evs1 @ evs)"
    using 1(3) 2(3) by simp
  ultimately show ?case using 1(4-6) 2(4-6) by (metis (no_types, lifting))
qed

lemma beforeExploitGeneration_hook:
  assumes "moduleStates x sid = Some modState" "constraintsQueue modState = G # rest"
    "list_all constantRegister G"
  shows "\<exists>x' evs. events x' = events x @ evs \<and>
           (\<forall>s. TerminateState s ''End of exploit generation'' \<notin> set evs) \<and>
           beforeExploitGeneration env sid x =
             (if list_ex isRipConstraint G then Inl (CpuExitException, x') else Inr x')"
proof -
  let ?x0 = "x\<lparr> warnings := warnings x @ [AddingConstraints] \<rparr>"
  from applyConstraints_trace [OF assms(3), of env sid False ?x0] obtain x1 evs where
    1: "applyConstraints env sid G False ?x0 = Inr (False \<or> list_ex isRipConstraint G, x1)"
       "events x1 = events ?x0 @ evs"
       "\<forall>s. TerminateState s ''End of exploit generation'' \<notin> set evs"
    by blast
  let ?x2 = "x1\<lparr> moduleStates := (moduleStates x1)(sid \<mapsto> modState\<lparr> constraintsQueue := rest \<rparr>) \<rparr>"
  have "beforeExploitGeneration env sid x =
          (if list_ex isRipConstraint G then Inl (CpuExitException, ?x2) else Inr ?x2)"
    using assms(1,2) 1(1)
    by (simp add: beforeExploitGeneration_def applyNextConstraintGroup_def Let_def)
  moreover have "events ?x2 = events x @ evs" using 1(2) by simp
  ultimately show ?thesis using 1(3) by blast
qed

text \<open>
  C3, as amended. For a symbolic program counter, once the exploit generation hooks have
  all returned, whatever they did, the handler terminates the originating state: the call
  of \<open>terminateState\<close> for that state is the next and last entry of the trace. A hook that
  throws leaves the handler with its exception before that call. The hook of DynamicRop
  does so whenever the group it applies holds a constraint on \<open>RIP\<close>: the handler is then
  left with \<open>CpuExitException\<close> and the trace has no termination of the state by the
  handler; when the group holds none, the hook returns and the state is terminated.
\<close>

theorem hijack_terminates_state:
  "(\<forall>x'. emit exploitGenerationHooks (beforeHooks x exploitableState symbolicRip concreteRip) = Inr x' \<longrightarrow>
      (\<exists>x''. onSymbolicRip exploitGenerationHooks x exploitableState symbolicRip concreteRip PC = Inr x'' \<and>
         events x'' = events x' @ [TerminateState exploitableState ''End of exploit generation''])) \<and>
   (\<forall>t. emit exploitGenerationHooks (beforeHooks x exploitableState symbolicRip concreteRip) = Inl t \<longrightarrow>
      onSymbolicRip exploitGenerationHooks x exploitableState symbolicRip concreteRip PC = Inl t) \<and>
   (\<forall>modState G rest.
      moduleStates x exploitableState = Some modState \<and> constraintsQueue modState = G # rest \<and>
      list_all constantRegister G \<longrightarrow>
      (\<exists>x' evs.
         events x' = events x @ [SetRipSymbolic exploitableState symbolicRip] @ evs \<and>
         (\<forall>s. TerminateState s ''End of exploit generation'' \<notin> set evs) \<and>
         onSymbolicRip [beforeExploitGeneration env exploitableState] x exploitableState
             symbolicRip concreteRip PC =
           (if list_ex isRipConstraint G then Inl (CpuExitException, x')
            else Inr (terminateState exploitableState ''End of exploit generation'' x'))))"
proof (intro conjI allI impI)
  fix x'
  assume "emit exploitGenerationHooks (beforeHooks x exploitableState symbolicRip concreteRip) = Inr x'"
  then show "\<exists>x''. onSymbolicRip exploitGenerationHooks x exploitableState symbolicRip concreteRip PC = Inr x'' \<and>
         events x'' = events x' @ [TerminateState exploitableState ''End of exploit generation'']"
    by (simp add: onSymbolicRip_def terminateState_def)
next
  fix t
  assume "emit exploitGenerationHooks (beforeHooks x exploitableState symbolicRip concreteRip) = Inl t"
  then show "onSymbolicRip exploitGenerationHooks x exploitableState symbolicRip concreteRip PC = Inl t"
    by (simp add: onSymbolicRip_def)
next
  fix modState G rest
  assume a: "moduleStates x exploitableState = Some modState \<and> constraintsQueue modState = G # rest \<and>
      list_all constantRegister G"
  let ?b = "beforeHooks x exploitableState symbolicRip concreteRip"
  from a have m: "moduleStates ?b exploitableState = Some modState"
    by (simp add: beforeHooks_def)
  from a have q: "constraintsQueue modState = G # rest" and c: "list_all constantRegister G"
    by simp_all
  from beforeExploitGeneration_hook [OF m q c, of env] obtain x' evs where
    h: "events x' = events ?b @ evs"
       "\<forall>s. TerminateState s ''End of exploit generation'' \<notin> set evs"
       "beforeExploitGeneration env exploitableState ?b =
             (if list_ex isRipConstraint G then Inl (CpuExitException, x') else Inr x')"
    by blast
  have e: "events x' = events x @ [SetRipSymbolic exploitableState symbolicRip] @ evs"
    using h(1) by (simp add: beforeHooks_def)
  have "onSymbolicRip [beforeExploitGeneration env exploitableState] x exploitableState
             symbolicRip concreteRip PC =
           (if list_ex isRipConstraint G then Inl (CpuExitException, x')
            else Inr (terminateState exploitableState ''End of exploit generation'' x'))"
    using h(3) by (simp add: onSymbolicRip_def)
  with e h(2) show "\<exists>x' evs.
         events x' = events x @ [SetRipSymbolic exploitableState symbolicRip] @ evs \<and>
         (\<forall>s. TerminateState s ''End of exploit generation'' \<notin> set evs) \<and>
         onSymbolicRip [beforeExploitGeneration env exploitableState] x exploitableState
             symbolicRip concreteRip PC =
           (if list_ex isRipConstraint G then Inl (CpuExitException, x')
            else Inr (terminateState exploitableState ''End of exploit generation'' x'))"
    by blast
qed

text \<open>
  C3 as stated fails: on \<open>ex_rip_queued\<close> the hook of DynamicRop applies the constraint on
  \<open>RIP\<close> and throws, and the handler is left without the call of \<open>terminateState\<close>.
\<close>

theorem hijack_terminates_state_counterexample:
  "onSymbolicRip [beforeExploitGeneration ex_env 1] ex_rip_queued 1 (SymbolicExpr 0) 0x41414141 PC =
     Inl (CpuExitException,
          ex_crax\<lparr> moduleStates := [1 \<mapsto> \<lparr> constraintsQueue = [] \<rparr>],
                    warnings := [DetectedSymbolicRip 0x41414141, RegInfoDump, MapInfoDump,
                                 AddingConstraints],
                    events := SetRipSymbolic 1 (SymbolicExpr 0) # ex_trace2 \<rparr>) \<and>
   TerminateState 1 ''End of exploit generation'' \<notin> set (SetRipSymbolic 1 (SymbolicExpr 0) # ex_trace2)"
  by (simp add: onSymbolicRip_def beforeExploitGeneration_def applyNextConstraintGroup_def
      beforeHooks_def ex_rip_queued_def ex_crax_def ex_G2_def ex_env_def ex_trace2_def Let_def)

text \<open>
  On \<open>ex_crax\<close>, with an empty queue, the hook returns and the state is terminated; on
  \<open>ex_rip_queued\<close> the handler is left with the exception.
\<close>

theorem hijack_terminates_state_witness:
  "emit [beforeExploitGeneration ex_env 1] (beforeHooks ex_crax 1 (SymbolicExpr 0) 0x41414141) =
     Inr (ex_crax\<lparr> warnings := [DetectedSymbolicRip 0x41414141, RegInfoDump, MapInfoDump,
                                   NoMoreConstraints],
                   events := [SetRipSymbolic 1 (SymbolicExpr 0)] \<rparr>) \<and>
   onSymbolicRip [beforeExploitGeneration ex_env 1] ex_crax 1 (SymbolicExpr 0) 0x41414141 PC =
     Inr (ex_crax\<lparr> warnings := [DetectedSymbolicRip 0x41414141, RegInfoDump, MapInfoDump,
                                   NoMoreConstraints],
                   events := [SetRipSymbolic 1 (SymbolicExpr 0),
                              TerminateState 1 ''End of exploit generation''] \<rparr>) \<and>
   moduleStates ex_rip_queued 1 = Some \<lparr> constraintsQueue = [ex_G2] \<rparr> \<and>
   list_all constantRegister ex_G2 \<and> list_ex isRipConstraint ex_G2 \<and>
   (\<exists>x'. onSymbolicRip [beforeExploitGeneration ex_env 1] ex_rip_queued 1 (SymbolicExpr 0)
            0x41414141 PC = Inl (CpuExitException, x'))"
proof -
  have e: "emit [beforeExploitGeneration ex_env 1] (beforeHooks ex_crax 1 (SymbolicExpr 0) 0x41414141) =
     Inr (ex_crax\<lparr> warnings := [DetectedSymbolicRip 0x41414141, RegInfoDump, MapInfoDump,
                                   NoMoreConstraints],
                   events := [SetRipSymbolic 1 (SymbolicExpr 0)] \<rparr>)"
    by (simp add: beforeExploitGeneration_def applyNextConstraintGroup_def beforeHooks_def ex_crax_def)
  from hijack_terminates_state [of "[beforeExploitGeneration ex_env 1]" ex_crax 1 "SymbolicExpr 0" "0x41414141"] e
  obtain x'' where
    "onSymbolicRip [beforeExploitGeneration ex_env 1] ex_crax 1 (SymbolicExpr 0) 0x41414141 PC = Inr x''"
    "events x'' = [SetRipSymbolic 1 (SymbolicExpr 0), TerminateState 1 ''End of exploit generation'']"
    by (auto simp: ex_crax_def)
  with e have r: "onSymbolicRip [beforeExploitGeneration ex_env 1] ex_crax 1 (SymbolicExpr 0) 0x41414141 PC =
     Inr (ex_crax\<lparr> warnings := [DetectedSymbolicRip 0x41414141, RegInfoDump, MapInfoDump,
                                   NoMoreConstraints],
                   events := [SetRipSymbolic 1 (SymbolicExpr 0),
                              TerminateState 1 ''End of exploit generation''] \<rparr>)"
    by (simp add: onSymbolicRip_def terminateState_def ex_crax_def)
  have m: "moduleStates ex_rip_queued 1 = Some \<lparr> constraintsQueue = [ex_G2] \<rparr>"
    by (simp add: ex_rip_queued_def)
  have q: "constraintsQueue \<lparr> constraintsQueue = [ex_G2] \<rparr> = ex_G2 # []" by simp
  have c: "list_all constantRegister ex_G2" by (simp add: ex_G2_def)
  have p: "list_ex isRipConstraint ex_G2" by (simp add: ex_G2_def)
  from hijack_terminates_state [of "[]" ex_rip_queued 1 "SymbolicExpr 0" "0x41414141" ex_env] m q c p
  have t: "\<exists>x'. onSymbolicRip [beforeExploitGeneration ex_env 1] ex_rip_queued 1 (SymbolicExpr 0)
            0x41414141 PC = Inl (CpuExitException, x')"
    by (metis (no_types, lifting))
  from e r m c p t show ?thesis by simp
qed


section \<open>Properties of Ret2syscall\<close>

lemma scanForSyscall_first:
  assumes "\<forall>j \<in> set pre. mnemonic j \<noteq> ''syscall''" "mnemonic i = ''syscall''"
  shows "scanForSyscall f (pre @ i # post) off =
           (if (insn_address i AND 0xff00) = (fn_address f AND 0xff00)
            then Inr (insn_address i) else Inl AssertionFailed)"
  using assms by (induction pre) auto

lemma scanForSyscall_none:
  assumes "\<forall>j \<in> set is. mnemonic j \<noteq> ''syscall''"
  shows "scanForSyscall f is off = Inr off"
  using assms by (induction "is") auto

lemma readCode_in_file:
  assumes "bytes = before @ code @ after" "length before = unat address" "length code = unat sz"
  shows "readCode bytes address sz = code"
  using assms by (simp add: readCode_def Let_def)

text \<open>
  C8. With \<open>__read\<close> in libc's function table and the routine's machine code in the libc
  file, the \<open>size\<close> bytes at offset \<open>address\<close>, \<open>getLsbOfReadSyscall\<close> disassembles that
  code from the routine's address and takes the first instruction whose mnemonic is
  \<open>syscall\<close>. It asserts that the second byte of that instruction's address (\<open>& 0xff00\<close>)
  is that of the routine's address, a failed assertion being fatal, and returns the low
  byte of the instruction's address.
\<close>

theorem getLsbOfReadSyscall_first_syscall:
  assumes "elf_functions libc ''__read'' = Some f"
    and "fileBytes libc = before @ code @ after"
    and "length before = unat (fn_address f)"
    and "length code = unat (fn_size f)"
    and "disasm env code (fn_address f) = pre @ i # post"
    and "\<forall>j \<in> set pre. mnemonic j \<noteq> ''syscall''"
    and "mnemonic i = ''syscall''"
  shows "getLsbOfReadSyscall env libc =
           (if (insn_address i AND 0xff00) = (fn_address f AND 0xff00)
            then Inr (ucast (insn_address i AND 0xff))
            else Inl AssertionFailed)"
proof -
  have "readCode (fileBytes libc) (fn_address f) (fn_size f) = code"
    by (rule readCode_in_file [OF assms(2-4)])
  with assms(1,5) scanForSyscall_first [OF assms(6,7), of f post "- 1"] show ?thesis
    by (simp add: getLsbOfReadSyscall_def Let_def)
qed

lemma ex_lsb: "getLsbOfReadSyscall ex_tenv ex_libc = Inr 0x2f"
  by (simp add: getLsbOfReadSyscall_def ex_tenv_def ex_libc_def Let_def)

lemma ex_disasm_code:
  "ex_disasm ex_read_code a =
     [\<lparr> insn_address = a, mnemonic = ''nop'', opStr = [] \<rparr>,
      \<lparr> insn_address = a + 1, mnemonic = ''nop'', opStr = [] \<rparr>] @
     [\<lparr> insn_address = a + 2, mnemonic = ''nop'', opStr = [] \<rparr>] @
      \<lparr> insn_address = a + 3, mnemonic = ''syscall'', opStr = [] \<rparr> #
     [\<lparr> insn_address = a + 5, mnemonic = ''ret'', opStr = [] \<rparr>,
      \<lparr> insn_address = a + 6, mnemonic = ''syscall'', opStr = [] \<rparr>]"
  by (simp add: ex_read_code_def add.assoc)

text \<open>
  On \<open>ex_libc_file\<close> the code of the routine at \<open>0x110020\<close> is read from the file and
  disassembled: the first \<open>syscall\<close> is at \<open>0x110023\<close> and the result is \<open>0x23\<close>. With the
  routine at \<open>0x1100fe\<close> the instruction is at \<open>0x110101\<close>, past the 256-byte boundary,
  and the assertion fails.
\<close>

theorem getLsbOfReadSyscall_first_syscall_witness:
  "getLsbOfReadSyscall ex_tenv_disasm ex_libc_file = Inr 0x23 \<and>
   getLsbOfReadSyscall ex_tenv_disasm
     (ex_libc_file\<lparr> elf_functions := [''__read'' \<mapsto> \<lparr> fn_address = 0x1100fe, fn_size = 8 \<rparr>] \<rparr>)
     = Inl AssertionFailed"
proof -
  let ?f = "\<lparr> fn_address = 0x110020, fn_size = 8 \<rparr> :: Function"
  let ?pre = "[\<lparr> insn_address = 0x110020, mnemonic = ''nop'', opStr = [] \<rparr>,
               \<lparr> insn_address = 0x110021, mnemonic = ''nop'', opStr = [] \<rparr>,
               \<lparr> insn_address = 0x110022, mnemonic = ''nop'', opStr = [] \<rparr>] :: Instruction list"
  let ?i = "\<lparr> insn_address = 0x110023, mnemonic = ''syscall'', opStr = [] \<rparr> :: Instruction"
  let ?post = "[\<lparr> insn_address = 0x110025, mnemonic = ''ret'', opStr = [] \<rparr>,
                \<lparr> insn_address = 0x110026, mnemonic = ''syscall'', opStr = [] \<rparr>] :: Instruction list"
  have h1: "elf_functions ex_libc_file ''__read'' = Some ?f" by (simp add: ex_libc_file_def)
  have h2: "fileBytes ex_libc_file =
              replicate 0x110020 0 @ ex_read_code @ (replicate 0xd6 0 @ ex_read_code)"
    by (simp add: ex_libc_file_def)
  have h3: "length (replicate 0x110020 (0::u8)) = unat (fn_address ?f)" by simp
  have h4: "length ex_read_code = unat (fn_size ?f)" by (simp add: ex_read_code_def)
  have h5: "disasm ex_tenv_disasm ex_read_code (fn_address ?f) = ?pre @ ?i # ?post"
    by (simp add: ex_tenv_disasm_def ex_disasm_code)
  have h6: "\<forall>j \<in> set ?pre. mnemonic j \<noteq> ''syscall''" by simp
  have h7: "mnemonic ?i = ''syscall''" by simp
  let ?libc2 = "ex_libc_file\<lparr> elf_functions := [''__read'' \<mapsto> \<lparr> fn_address = 0x1100fe, fn_size = 8 \<rparr>] \<rparr>"
  let ?f2 = "\<lparr> fn_address = 0x1100fe, fn_size = 8 \<rparr> :: Function"
  let ?pre2 = "[\<lparr> insn_address = 0x1100fe, mnemonic = ''nop'', opStr = [] \<rparr>,
               \<lparr> insn_address = 0x1100ff, mnemonic = ''nop'', opStr = [] \<rparr>,
               \<lparr> insn_address = 0x110100, mnemonic = ''nop'', opStr = [] \<rparr>] :: Instruction list"
  let ?i2 = "\<lparr> insn_address = 0x110101, mnemonic = ''syscall'', opStr = [] \<rparr> :: Instruction"
  let ?post2 = "[\<lparr> insn_address = 0x110103, mnemonic = ''ret'', opStr = [] \<rparr>,
                \<lparr> insn_address = 0x110104, mnemonic = ''syscall'', opStr = [] \<rparr>] :: Instruction list"
  have g1: "elf_functions ?libc2 ''__read'' = Some ?f2" by simp
  have g2: "fileBytes ?libc2 =
              (replicate 0x110020 0 @ ex_read_code @ replicate 0xd6 0) @ ex_read_code @ []"
    by (simp add: ex_libc_file_def)
  have g3: "length (replicate 0x110020 (0::u8) @ ex_read_code @ replicate 0xd6 0) = unat (fn_address ?f2)"
    by (simp add: ex_read_code_def)
  have g4: "length ex_read_code = unat (fn_size ?f2)" by (simp add: ex_read_code_def)
  have g5: "disasm ex_tenv_disasm ex_read_code (fn_address ?f2) = ?pre2 @ ?i2 # ?post2"
    by (simp add: ex_tenv_disasm_def ex_disasm_code)
  have g6: "\<forall>j \<in> set ?pre2. mnemonic j \<noteq> ''syscall''" by simp
  have g7: "mnemonic ?i2 = ''syscall''" by simp
  from getLsbOfReadSyscall_first_syscall [OF h1 h2 h3 h4 h5 h6 h7]
    getLsbOfReadSyscall_first_syscall [OF g1 g2 g3 g4 g5 g6 g7] show ?thesis
    by simp
qed

text \<open>
  C2. When Ret2csu is available and gives at least one subchain for each of the four
  calls, and the redirect byte of \<open>__read\<close> resolves, \<open>getRopSubchains\<close> returns exactly
  three subchains. The first is one zero constant of 64 bits followed, in this order, by
  the first Ret2csu subchain for the arguments \<open>(0, got['read'], 1)\<close>, for \<open>(1, 0, 0)\<close>, for
  \<open>(0, bss, 59)\<close> and for \<open>(bss, 0, 0)\<close>. The second is one byte vector of one byte, the
  redirect byte. The third is one byte vector: \<open>/bin/sh\<close> followed by 52 zero bytes,
  59 bytes in all. The result does not depend on the canary, PIE or RELRO flags; the
  scenario of the claim is the concrete input below.
\<close>

theorem getRopSubchains_three_subchains:
  assumes "getTechnique_Ret2csu env = Some ret2csu"
    and "ret2csu (m_syscallGadget t) (ConstantExpr 0 64)
           (BaseOffsetExpr GOT (elf_filename elf) ''read'') (ConstantExpr 1 64) = part1 # more1"
    and "ret2csu (m_syscallGadget t) (ConstantExpr 1 64)
           (ConstantExpr 0 64) (ConstantExpr 0 64) = part2 # more2"
    and "ret2csu (m_syscallGadget t) (ConstantExpr 0 64)
           (BaseOffsetExpr BSS (elf_filename elf) []) (ConstantExpr 59 64) = part3 # more3"
    and "ret2csu (m_syscallGadget t) (BaseOffsetExpr BSS (elf_filename elf) [])
           (ConstantExpr 0 64) (ConstantExpr 0 64) = part4 # more4"
    and "getLsbOfReadSyscall env libc = Inr lsb"
  shows "getRopSubchains env t elf libc =
           Inr [ConstantExpr 0 64 # part1 @ part2 @ part3 @ part4,
                [ByteVectorExpr [lsb]],
                [ByteVectorExpr (bytesOf ''/bin/sh'' @ replicate 52 0)]] \<and>
         length (bytesOf ''/bin/sh'' @ replicate 52 0) = 59"
  using assms
  by (simp add: getRopSubchains_def first_def Let_def ljust_def bytesOf_def)

lemma ex_new: "Ret2syscall_new ex_tenv ex_elf =
   \<lparr> m_requiredGadgets = [], m_syscallGadget = Some (BaseOffsetExpr SYM ''target'' ''read'') \<rparr>"
  by (simp add: Ret2syscall_new_def ex_tenv_def ex_elf_def)

text \<open>
  The scenario: no canary, no PIE, no full RELRO, \<open>__read\<close> in libc, requirements met.
\<close>

theorem getRopSubchains_three_subchains_witness:
  "\<not> hasCanary ex_elf \<and> \<not> hasPIE ex_elf \<and> \<not> hasFullRELRO ex_elf \<and>
   elf_functions ex_libc ''__read'' \<noteq> None \<and>
   checkRequirements ex_tenv (Ret2syscall_new ex_tenv ex_elf) \<and>
   getLsbOfReadSyscall ex_tenv ex_libc = Inr 0x2f \<and>
   getRopSubchains ex_tenv (Ret2syscall_new ex_tenv ex_elf) ex_elf ex_libc =
   Inr [[ConstantExpr 0 64,
         BaseOffsetExpr SYM ''target'' ''read'', ConstantExpr 0 64,
           BaseOffsetExpr GOT ''target'' ''read'', ConstantExpr 1 64,
         BaseOffsetExpr SYM ''target'' ''read'', ConstantExpr 1 64, ConstantExpr 0 64, ConstantExpr 0 64,
         BaseOffsetExpr SYM ''target'' ''read'', ConstantExpr 0 64,
           BaseOffsetExpr BSS ''target'' [], ConstantExpr 59 64,
         BaseOffsetExpr SYM ''target'' ''read'', BaseOffsetExpr BSS ''target'' [],
           ConstantExpr 0 64, ConstantExpr 0 64],
        [ByteVectorExpr [0x2f]],
        [ByteVectorExpr ([0x2f, 0x62, 0x69, 0x6e, 0x2f, 0x73, 0x68] @ replicate 52 0)]]"
proof -
  let ?g = "Some (BaseOffsetExpr SYM ''target'' ''read'')"
  have t: "m_syscallGadget (Ret2syscall_new ex_tenv ex_elf) = ?g" by (simp add: ex_new)
  have h0: "getTechnique_Ret2csu ex_tenv = Some ex_ret2csu" by (simp add: ex_tenv_def)
  have h1: "ex_ret2csu (m_syscallGadget (Ret2syscall_new ex_tenv ex_elf)) (ConstantExpr 0 64)
           (BaseOffsetExpr GOT (elf_filename ex_elf) ''read'') (ConstantExpr 1 64) =
        [BaseOffsetExpr SYM ''target'' ''read'', ConstantExpr 0 64,
           BaseOffsetExpr GOT ''target'' ''read'', ConstantExpr 1 64] # []"
    unfolding t by (simp add: ex_ret2csu_def ex_elf_def)
  have h2: "ex_ret2csu (m_syscallGadget (Ret2syscall_new ex_tenv ex_elf)) (ConstantExpr 1 64)
           (ConstantExpr 0 64) (ConstantExpr 0 64) =
        [BaseOffsetExpr SYM ''target'' ''read'', ConstantExpr 1 64, ConstantExpr 0 64,
           ConstantExpr 0 64] # []"
    unfolding t by (simp add: ex_ret2csu_def)
  have h3: "ex_ret2csu (m_syscallGadget (Ret2syscall_new ex_tenv ex_elf)) (ConstantExpr 0 64)
           (BaseOffsetExpr BSS (elf_filename ex_elf) []) (ConstantExpr 59 64) =
        [BaseOffsetExpr SYM ''target'' ''read'', ConstantExpr 0 64,
           BaseOffsetExpr BSS ''target'' [], ConstantExpr 59 64] # []"
    unfolding t by (simp add: ex_ret2csu_def ex_elf_def)
  have h4: "ex_ret2csu (m_syscallGadget (Ret2syscall_new ex_tenv ex_elf))
           (BaseOffsetExpr BSS (elf_filename ex_elf) []) (ConstantExpr 0 64) (ConstantExpr 0 64) =
        [BaseOffsetExpr SYM ''target'' ''read'', BaseOffsetExpr BSS ''target'' [],
           ConstantExpr 0 64, ConstantExpr 0 64] # []"
    unfolding t by (simp add: ex_ret2csu_def ex_elf_def)
  have c: "checkRequirements ex_tenv (Ret2syscall_new ex_tenv ex_elf)"
    by (simp add: checkRequirements_def ex_new) (simp add: ex_tenv_def)
  have f: "\<not> hasCanary ex_elf \<and> \<not> hasPIE ex_elf \<and> \<not> hasFullRELRO ex_elf \<and>
           elf_functions ex_libc ''__read'' \<noteq> None"
    by (simp add: ex_elf_def ex_libc_def)
  from getRopSubchains_three_subchains [OF h0 h1 h2 h3 h4 ex_lsb] c f ex_lsb show ?thesis
    by (simp add: bytesOf_def)
qed


section \<open>Properties of the exploit generator\<close>

lemma walk_append:
  "walk T elf ropChain modState i (pre @ rest) g =
     (case walk T elf ropChain modState i pre g of
        Inl ex \<Rightarrow> Inl ex
      | Inr g' \<Rightarrow> walk T elf ropChain modState (i + of_nat (length pre)) rest g')"
proof (induction pre arbitrary: i g)
  case Nil
  then show ?case by simp
next
  case (Cons a pre)
  from Cons show ?case
    by (simp add: add.assoc split: sum.splits)
qed

lemma visitInput_skip:
  assumes "lastInputStateInfoIdxBeforeFirstSymbolicRip (v_modState v) \<noteq> - 1"
    and "v_i v \<ge> ucast (lastInputStateInfoIdxBeforeFirstSymbolicRip (v_modState v))"
    and "v_i v \<noteq> ucast (lastInputStateInfoIdx (v_modState v))"
  shows "visitInput T v stateInfo (exploit, inputStream) =
           Inr (exploit @ [Writeline (''# input state (offset = '' @ format_d T (offset stateInfo) @
                                       ''), skipped'')],
                stream_skip (unat (offset stateInfo)) inputStream)"
  using assms by (simp add: visitInput_def shouldSkipInputState_def)

text \<open>
  C9. When \<open>generateMainFunction\<close> walks the timeline and comes to an input state whose
  index is at or after the tracker's \<open>lastInputStateInfoIdxBeforeFirstSymbolicRip\<close> (which
  has been set, as the assertion demands) and is not \<open>lastInputStateInfoIdx\<close>, the index
  of the ROP chain injection, the visit of that state writes the empty line and one
  comment line and nothing that sends; the stream's count of bytes read is unchanged and
  its count of bytes consumed grows by the state's \<open>offset\<close>. The walk then goes on with
  the next index.
\<close>

theorem input_state_after_hijack_skipped:
  assumes "stateInfoList modState = pre @ InputState stateInfo # post"
    and "lastInputStateInfoIdxBeforeFirstSymbolicRip modState \<noteq> - 1"
    and "(of_nat (length pre) :: u64) \<ge> ucast (lastInputStateInfoIdxBeforeFirstSymbolicRip modState)"
    and "(of_nat (length pre) :: u64) \<noteq> ucast (lastInputStateInfoIdx modState)"
    and "walk T elf ropChain modState 0 pre
           (exploit0, \<lparr> stream_bytes = stage1, nrBytesRead = 0, nrBytesSkipped = 0 \<rparr>) =
         Inr (exploit, inputStream)"
  shows "\<exists>added inputStream'.
           visit T \<lparr> v_elf = elf, v_ropChain = ropChain, v_modState = modState,
                     v_i = of_nat (length pre) \<rparr>
             (InputState stateInfo) (exploit @ [Writeline []], inputStream) =
             Inr (exploit @ [Writeline []] @ added, inputStream') \<and>
           generateMainFunction T elf modState ropChain stage1 exploit0 =
             walk T elf ropChain modState (of_nat (length pre) + 1) post
               (exploit @ [Writeline []] @ added, inputStream') \<and>
           (\<forall>op \<in> set added. \<not> isSend op) \<and>
           nrBytesRead inputStream' = nrBytesRead inputStream \<and>
           getNrBytesConsumed inputStream' = getNrBytesConsumed inputStream + unat (offset stateInfo)"
proof -
  let ?v = "\<lparr> v_elf = elf, v_ropChain = ropChain, v_modState = modState,
              v_i = of_nat (length pre) \<rparr>"
  let ?added = "[Writeline (''# input state (offset = '' @ format_d T (offset stateInfo) @
                             ''), skipped'')]"
  let ?s' = "stream_skip (unat (offset stateInfo)) inputStream"
  have v: "visit T ?v (InputState stateInfo) (exploit @ [Writeline []], inputStream) =
             Inr (exploit @ [Writeline []] @ ?added, ?s')"
    using assms(2-4) by (simp add: visitInput_skip)
  have g: "generateMainFunction T elf modState ropChain stage1 exploit0 =
             walk T elf ropChain modState (of_nat (length pre) + 1) post
               (exploit @ [Writeline []] @ ?added, ?s')"
    using assms(1,5) v by (simp add: generateMainFunction_def walk_append)
  have n: "\<forall>op \<in> set ?added. \<not> isSend op" by simp
  have c: "nrBytesRead ?s' = nrBytesRead inputStream \<and>
           getNrBytesConsumed ?s' = getNrBytesConsumed inputStream + unat (offset stateInfo)"
    by (simp add: stream_skip_def getNrBytesConsumed_def)
  from v g n c show ?thesis by blast
qed

lemma ex_walk_pre:
  "walk ex_text ex_elf [[ByteVectorExpr []]] ex_modState 0 [InputState \<lparr> buf = [], offset = 4 \<rparr>]
     ([], \<lparr> stream_bytes = replicate 28 0x41, nrBytesRead = 0, nrBytesSkipped = 0 \<rparr>) =
   Inr ([Writeline [], Writeline ''# input state (offset = <d>)'', Writeline ''proc.send(<bytes>)''],
        \<lparr> stream_bytes = replicate 28 0x41, nrBytesRead = 4, nrBytesSkipped = 0 \<rparr>)"
  by (simp add: visitInput_def shouldSkipInputState_def ex_modState_def ex_text_def
      stream_read_def getNrBytesConsumed_def)

text \<open>
  On the example timeline the input state at index 1 is skipped: 8 bytes are skipped after
  the 4 bytes sent for index 0, and the walk goes on at index 2.
\<close>

theorem input_state_after_hijack_skipped_witness:
  "generateMainFunction ex_text ex_elf ex_modState [[ByteVectorExpr []]] (replicate 28 0x41) [] =
     walk ex_text ex_elf [[ByteVectorExpr []]] ex_modState 2 [InputState \<lparr> buf = [], offset = 16 \<rparr>]
       ([Writeline [], Writeline ''# input state (offset = <d>)'', Writeline ''proc.send(<bytes>)'',
         Writeline [], Writeline ''# input state (offset = <d>), skipped''],
        \<lparr> stream_bytes = replicate 28 0x41, nrBytesRead = 4, nrBytesSkipped = 8 \<rparr>)"
proof -
  let ?pre = "[InputState \<lparr> buf = [], offset = 4 \<rparr>]"
  have h1: "stateInfoList ex_modState =
              ?pre @ InputState \<lparr> buf = [], offset = 8 \<rparr> # [InputState \<lparr> buf = [], offset = 16 \<rparr>]"
    by (simp add: ex_modState_def)
  have h2: "lastInputStateInfoIdxBeforeFirstSymbolicRip ex_modState \<noteq> - 1"
    by (simp add: ex_modState_def)
  have h3: "(of_nat (length ?pre) :: u64) \<ge>
              ucast (lastInputStateInfoIdxBeforeFirstSymbolicRip ex_modState)"
    by (simp add: ex_modState_def)
  have h4: "(of_nat (length ?pre) :: u64) \<noteq> ucast (lastInputStateInfoIdx ex_modState)"
    by (simp add: ex_modState_def)
  from input_state_after_hijack_skipped [OF h1 h2 h3 h4 ex_walk_pre] show ?thesis
    by (auto simp: visitInput_def shouldSkipInputState_def ex_modState_def ex_text_def
        stream_skip_def)
qed

end
